theory Spec2Isabelle
  imports Complex_Main "HOL-Library.Multiset"
begin

section \<open>Scoring functions of the CinC2021 database reader\<close>

text \<open>
  The functions embedded here are the module-level scoring functions of
  \<^verbatim>\<open>torch_ecg/databases/physionet_databases/cinc2021.py\<close>:
  \<^verbatim>\<open>_compute_accuracy\<close>, \<^verbatim>\<open>_compute_confusion_matrices\<close>, \<^verbatim>\<open>_compute_f_measure\<close>,
  \<^verbatim>\<open>_compute_beta_measures\<close>, \<^verbatim>\<open>_compute_auc\<close>, \<^verbatim>\<open>_compute_modified_confusion_matrix\<close>
  and \<^verbatim>\<open>compute_challenge_metric\<close>.

  Conventions of the embedding.
  \<^item> A two-dimensional array is a list of rows. Label and binary prediction entries are
    \<open>int\<close>; scores are \<open>rat\<close>.
  \<^item> A floating point value is either \<open>NaN\<close> or a finite number \<open>Fin q\<close> with \<open>q\<close> a rational;
    infinities are not part of the model. Where rounding only changes the values that are
    returned the arithmetic is exact. The challenge metric branches on the comparison of two
    computed sums, so its arithmetic is rounded: the rounding is a parameter \<open>rnd\<close>, and the
    theorems hold for every rounding.
  \<^item> An exception raised by the source is a value \<open>Inl e\<close> of the result type.
  \<^item> The arrays handed to one function have the shapes its docstring states; the theorems
    carry these shapes as hypotheses, and every indexed read is then in range.
\<close>

subsection \<open>Values and errors\<close>

text \<open>
  The exceptions. \<open>ValueError\<close> is the \<^verbatim>\<open>ValueError\<close> that the accumulation of the confusion
  matrices raises, \<open>ValueError_sinus_rhythm\<close> the \<^verbatim>\<open>ValueError\<close> of the challenge metric for a
  class list without the sinus rhythm class, and \<open>ValueError_broadcast\<close> the \<^verbatim>\<open>ValueError\<close> that
  numpy raises for an elementwise product of arrays whose shapes do not broadcast.
\<close>

datatype error =
  ValueError | IndexError | ZeroDivisionError | ValueError_sinus_rhythm | ValueError_broadcast

datatype flt = NaN | Fin rat

fun flt_add :: "flt \<Rightarrow> flt \<Rightarrow> flt" where
  "flt_add (Fin a) (Fin b) = Fin (a + b)"
| "flt_add _ _ = NaN"

fun flt_sub :: "flt \<Rightarrow> flt \<Rightarrow> flt" where
  "flt_sub (Fin a) (Fin b) = Fin (a - b)"
| "flt_sub _ _ = NaN"

fun flt_mul :: "flt \<Rightarrow> flt \<Rightarrow> flt" where
  "flt_mul (Fin a) (Fin b) = Fin (a * b)"
| "flt_mul _ _ = NaN"

fun isfinite :: "flt \<Rightarrow> bool" where
  "isfinite NaN = False"
| "isfinite (Fin _) = True"

fun nan_to_zero :: "flt \<Rightarrow> rat" where
  "nan_to_zero NaN = 0"
| "nan_to_zero (Fin a) = a"

type_synonym 'a matrix = "'a list list"

text \<open>\<^verbatim>\<open>np.shape\<close> of a two-dimensional array given as a list of rows.\<close>

definition np_shape :: "'a matrix \<Rightarrow> nat \<times> nat" where
  "np_shape m = (length m, case m of [] \<Rightarrow> 0 | r # _ \<Rightarrow> length r)"

text \<open>\<^verbatim>\<open>np.zeros\<close> for one and two dimensions.\<close>

definition zeros1 :: "nat \<Rightarrow> ('a::zero) list" where
  "zeros1 n = replicate n 0"

definition zeros2 :: "nat \<Rightarrow> nat \<Rightarrow> ('a::zero) matrix" where
  "zeros2 n m = replicate n (replicate m 0)"

text \<open>The column \<^verbatim>\<open>a[:, k]\<close>.\<close>

definition column :: "'a matrix \<Rightarrow> nat \<Rightarrow> 'a list" where
  "column m k = map (\<lambda>row. row ! k) m"

text \<open>
  \<^verbatim>\<open>np.nansum\<close>: NaN entries count as zero. \<^verbatim>\<open>np.nanmean\<close>: the NaN-free sum divided by
  the number of entries that are not NaN; with no such entry numpy divides zero by zero,
  warns, and returns NaN.
\<close>

definition nansum :: "flt list \<Rightarrow> rat" where
  "nansum xs = sum_list (map nan_to_zero xs)"

definition nanmean :: "flt list \<Rightarrow> flt" where
  "nanmean xs =
     (let cnt = length (filter isfinite xs); tot = nansum xs
      in if cnt = 0 then NaN else Fin (tot / of_nat cnt))"

subsection \<open>Accuracy\<close>

text \<open>
  \<^verbatim>\<open>np.all(labels[i, :] == outputs[i, :])\<close>, an elementwise comparison over the
  \<open>num_classes\<close> columns.
\<close>

definition rows_all_equal :: "nat \<Rightarrow> int list \<Rightarrow> int list \<Rightarrow> bool" where
  "rows_all_equal num_classes l out = list_all (\<lambda>j. l ! j = out ! j) [0..<num_classes]"

definition compute_accuracy :: "int matrix \<Rightarrow> int matrix \<Rightarrow> error + flt" where
  "compute_accuracy labels outputs =
     (let (num_recordings, num_classes) = np_shape labels;
          num_correct_recordings =
            fold (\<lambda>i n. if rows_all_equal num_classes (labels ! i) (outputs ! i) then n + 1 else n)
              [0..<num_recordings] (0::nat)
      in if num_recordings = 0 then Inl ZeroDivisionError
         else Inr (Fin (of_nat num_correct_recordings / of_nat num_recordings)))"

subsection \<open>Per-class confusion matrices\<close>

text \<open>
  The array \<open>A\<close> has shape \<open>(num_classes, 2, 2)\<close>; \<open>add3 A j a b v\<close> is
  \<^verbatim>\<open>A[j, a, b] += v\<close>.
\<close>

definition add3 :: "rat list list list \<Rightarrow> nat \<Rightarrow> nat \<Rightarrow> nat \<Rightarrow> rat \<Rightarrow> rat list list list" where
  "add3 A j a b v = A[j := (A ! j)[a := (A ! j ! a)[b := A ! j ! a ! b + v]]]"

text \<open>
  The body of the loop over the classes \<open>j\<close> of one recording: the four-way case
  distinction, with the \<^verbatim>\<open>ValueError\<close> of the final \<^verbatim>\<open>else\<close>. \<open>inc\<close> is the increment,
  \<open>1\<close> or \<open>1.0 / normalization\<close>.
\<close>

fun confusion_row :: "rat \<Rightarrow> int list \<Rightarrow> int list \<Rightarrow> nat list \<Rightarrow> rat list list list
    \<Rightarrow> error + rat list list list" where
  "confusion_row inc l out [] A = Inr A"
| "confusion_row inc l out (j # js) A =
     (if l ! j = 1 \<and> out ! j = 1 then confusion_row inc l out js (add3 A j 1 1 inc)
      else if l ! j = 0 \<and> out ! j = 1 then confusion_row inc l out js (add3 A j 1 0 inc)
      else if l ! j = 1 \<and> out ! j = 0 then confusion_row inc l out js (add3 A j 0 1 inc)
      else if l ! j = 0 \<and> out ! j = 0 then confusion_row inc l out js (add3 A j 0 0 inc)
      else Inl ValueError)"

text \<open>The loop over the recordings \<open>i\<close>; \<open>incr i\<close> is the increment used for recording \<open>i\<close>.\<close>

fun confusion_rows :: "(nat \<Rightarrow> rat) \<Rightarrow> int matrix \<Rightarrow> int matrix \<Rightarrow> nat \<Rightarrow> nat list
    \<Rightarrow> rat list list list \<Rightarrow> error + rat list list list" where
  "confusion_rows incr labels outputs num_classes [] A = Inr A"
| "confusion_rows incr labels outputs num_classes (i # is) A =
     (case confusion_row (incr i) (labels ! i) (outputs ! i) [0..<num_classes] A of
        Inl e \<Rightarrow> Inl e
      | Inr A' \<Rightarrow> confusion_rows incr labels outputs num_classes is A')"

definition compute_confusion_matrices :: "int matrix \<Rightarrow> int matrix \<Rightarrow> bool
    \<Rightarrow> error + rat list list list" where
  "compute_confusion_matrices labels outputs normalized =
     (let (num_recordings, num_classes) = np_shape labels;
          A = replicate num_classes [[0, 0], [0, 0]]
      in if \<not> normalized then
           confusion_rows (\<lambda>i. 1) labels outputs num_classes [0..<num_recordings] A
         else
           confusion_rows (\<lambda>i. 1 / of_int (max (sum_list (labels ! i)) 1))
             labels outputs num_classes [0..<num_recordings] A)"

subsection \<open>F-measure, F-beta and G-beta\<close>

definition f_measure_class :: "rat list list \<Rightarrow> flt" where
  "f_measure_class Ak =
     (let tp = Ak ! 1 ! 1; fp = Ak ! 1 ! 0; fn = Ak ! 0 ! 1; tn = Ak ! 0 ! 0
      in if 2 * tp + fp + fn \<noteq> 0 then Fin ((2 * tp) / (2 * tp + fp + fn)) else NaN)"

definition compute_f_measure :: "int matrix \<Rightarrow> int matrix \<Rightarrow> error + (flt \<times> flt list)" where
  "compute_f_measure labels outputs =
     (let (num_recordings, num_classes) = np_shape labels
      in case compute_confusion_matrices labels outputs False of
           Inl e \<Rightarrow> Inl e
         | Inr A \<Rightarrow>
            (let f_measure = map (\<lambda>k. f_measure_class (A ! k)) [0..<num_classes];
                 macro_f_measure = (if list_ex isfinite f_measure then nanmean f_measure else NaN)
             in Inr (macro_f_measure, f_measure)))"

definition f_beta_class :: "rat \<Rightarrow> rat list list \<Rightarrow> flt" where
  "f_beta_class beta Ak =
     (let tp = Ak ! 1 ! 1; fp = Ak ! 1 ! 0; fn = Ak ! 0 ! 1; tn = Ak ! 0 ! 0
      in if (1 + beta\<^sup>2) * tp + fp + beta\<^sup>2 * fn \<noteq> 0
         then Fin (((1 + beta\<^sup>2) * tp) / ((1 + beta\<^sup>2) * tp + fp + beta\<^sup>2 * fn))
         else NaN)"

definition g_beta_class :: "rat \<Rightarrow> rat list list \<Rightarrow> flt" where
  "g_beta_class beta Ak =
     (let tp = Ak ! 1 ! 1; fp = Ak ! 1 ! 0; fn = Ak ! 0 ! 1; tn = Ak ! 0 ! 0
      in if tp + fp + beta * fn \<noteq> 0 then Fin (tp / (tp + fp + beta * fn)) else NaN)"

definition compute_beta_measures :: "int matrix \<Rightarrow> int matrix \<Rightarrow> rat \<Rightarrow> error + (flt \<times> flt)" where
  "compute_beta_measures labels outputs beta =
     (let (num_recordings, num_classes) = np_shape labels
      in case compute_confusion_matrices labels outputs True of
           Inl e \<Rightarrow> Inl e
         | Inr A \<Rightarrow>
            (let f_beta_measure = map (\<lambda>k. f_beta_class beta (A ! k)) [0..<num_classes];
                 g_beta_measure = map (\<lambda>k. g_beta_class beta (A ! k)) [0..<num_classes];
                 macro_f_beta_measure = nanmean f_beta_measure;
                 macro_g_beta_measure = nanmean g_beta_measure
             in Inr (macro_f_beta_measure, macro_g_beta_measure)))"

subsection \<open>AUROC and AUPRC by a threshold sweep\<close>

text \<open>
  \<^verbatim>\<open>np.unique\<close> returns the distinct values in ascending order. \<^verbatim>\<open>np.argsort\<close> returns
  indices that sort the values in ascending order; numpy does not fix the order of indices
  with equal values, and the embedding takes the stable one. The theorems about the sweep
  are proved for every index list that sorts the scores, so they do not depend on
  this choice.
\<close>

definition np_unique :: "rat list \<Rightarrow> rat list" where
  "np_unique xs = sort (remdups xs)"

definition np_argsort :: "rat list \<Rightarrow> nat list" where
  "np_argsort xs = sort_key (\<lambda>i. xs ! i) [0..<length xs]"

text \<open>
  The thresholds of one class: the distinct scores, one more value appended, reversed.
  \<^verbatim>\<open>thresholds[-1]\<close> raises \<^verbatim>\<open>IndexError\<close> on an empty array.
\<close>

definition make_thresholds :: "rat list \<Rightarrow> error + rat list" where
  "make_thresholds out =
     (let thresholds = np_unique out
      in if thresholds = [] then Inl IndexError
         else Inr (rev (thresholds @ [last thresholds + 1])))"

text \<open>
  The state of the sweep: the four arrays \<open>tp\<close>, \<open>fp\<close>, \<open>fn\<close>, \<open>tn\<close> (whole numbers stored in
  floating point arrays, here \<open>int\<close>) and the cursor \<open>i\<close> into \<open>idx\<close>.
\<close>

record sweep =
  sw_tp :: "int list"
  sw_fp :: "int list"
  sw_fn :: "int list"
  sw_tn :: "int list"
  sw_i :: nat

text \<open>
  The inner \<^verbatim>\<open>while\<close> loop at threshold index \<open>j\<close> with threshold value \<open>t\<close>. \<open>l\<close> and \<open>out\<close> are
  the columns \<^verbatim>\<open>labels[:, k]\<close> and \<^verbatim>\<open>outputs[:, k]\<close>; the test \<^verbatim>\<open>if labels[idx[i], k]\<close> is
  Python truthiness, that is, being different from zero.
\<close>

function absorb :: "int list \<Rightarrow> rat list \<Rightarrow> nat list \<Rightarrow> nat \<Rightarrow> rat \<Rightarrow> nat \<Rightarrow> sweep \<Rightarrow> sweep" where
  "absorb l out idx num_recordings t j s =
     (if sw_i s < num_recordings \<and> out ! (idx ! sw_i s) \<ge> t then
        absorb l out idx num_recordings t j
          (if l ! (idx ! sw_i s) \<noteq> 0
           then s\<lparr>sw_tp := (sw_tp s)[j := sw_tp s ! j + 1],
                  sw_fn := (sw_fn s)[j := sw_fn s ! j - 1],
                  sw_i := sw_i s + 1\<rparr>
           else s\<lparr>sw_fp := (sw_fp s)[j := sw_fp s ! j + 1],
                  sw_tn := (sw_tn s)[j := sw_tn s ! j - 1],
                  sw_i := sw_i s + 1\<rparr>)
      else s)"
  by pat_completeness auto
termination
  by (relation "measure (\<lambda>(l, out, idx, num_recordings, t, j, s). num_recordings - sw_i s)") auto

declare absorb.simps [simp del]

text \<open>One iteration of the loop \<^verbatim>\<open>for j in range(1, num_thresholds)\<close>.\<close>

definition sweep_step :: "int list \<Rightarrow> rat list \<Rightarrow> nat list \<Rightarrow> nat \<Rightarrow> rat list \<Rightarrow> nat \<Rightarrow> sweep \<Rightarrow> sweep" where
  "sweep_step l out idx num_recordings thresholds j s =
     absorb l out idx num_recordings (thresholds ! j) j
       (s\<lparr>sw_tp := (sw_tp s)[j := sw_tp s ! (j - 1)],
          sw_fp := (sw_fp s)[j := sw_fp s ! (j - 1)],
          sw_fn := (sw_fn s)[j := sw_fn s ! (j - 1)],
          sw_tn := (sw_tn s)[j := sw_tn s ! (j - 1)]\<rparr>)"

definition sweep_init :: "int list \<Rightarrow> nat \<Rightarrow> sweep" where
  "sweep_init l num_thresholds =
     \<lparr>sw_tp = zeros1 num_thresholds,
      sw_fp = zeros1 num_thresholds,
      sw_fn = (zeros1 num_thresholds)[0 := int (length (filter (\<lambda>x. x = 1) l))],
      sw_tn = (zeros1 num_thresholds)[0 := int (length (filter (\<lambda>x. x = 0) l))],
      sw_i = 0\<rparr>"

text \<open>
  The state after the iterations \<open>j = 1, \<dots>, m - 1\<close> of the outer loop; the whole loop is
  \<open>sweep_upto \<dots> num_thresholds\<close>.
\<close>

definition sweep_upto :: "int list \<Rightarrow> rat list \<Rightarrow> nat list \<Rightarrow> nat \<Rightarrow> rat list \<Rightarrow> nat \<Rightarrow> sweep" where
  "sweep_upto l out idx num_recordings thresholds m =
     fold (sweep_step l out idx num_recordings thresholds) [1..<m]
       (sweep_init l (length thresholds))"

definition rate :: "int \<Rightarrow> int \<Rightarrow> flt" where
  "rate num den = (if den \<noteq> 0 then Fin (of_int num / of_int den) else NaN)"

text \<open>
  The sweep and the two sums for one class, for a given index list \<open>idx\<close>.
\<close>

definition auc_of_sweep :: "int list \<Rightarrow> rat list \<Rightarrow> nat list \<Rightarrow> nat \<Rightarrow> rat list \<Rightarrow> flt \<times> flt" where
  "auc_of_sweep l out idx num_recordings thresholds =
     (let num_thresholds = length thresholds;
          s = sweep_upto l out idx num_recordings thresholds num_thresholds;
          tp = sw_tp s; fp = sw_fp s; fn = sw_fn s; tn = sw_tn s;
          tpr = map (\<lambda>j. rate (tp ! j) (tp ! j + fn ! j)) [0..<num_thresholds];
          tnr = map (\<lambda>j. rate (tn ! j) (fp ! j + tn ! j)) [0..<num_thresholds];
          ppv = map (\<lambda>j. rate (tp ! j) (tp ! j + fp ! j)) [0..<num_thresholds];
          auroc_k = fold (\<lambda>j a. flt_add a
                      (flt_mul (flt_mul (Fin (1 / 2)) (flt_sub (tpr ! (j + 1)) (tpr ! j)))
                               (flt_add (tnr ! (j + 1)) (tnr ! j))))
                      [0..<num_thresholds - 1] (Fin 0);
          auprc_k = fold (\<lambda>j a. flt_add a
                      (flt_mul (flt_sub (tpr ! (j + 1)) (tpr ! j)) (ppv ! (j + 1))))
                      [0..<num_thresholds - 1] (Fin 0)
      in (auroc_k, auprc_k))"

definition auc_class :: "int list \<Rightarrow> rat list \<Rightarrow> nat \<Rightarrow> error + (flt \<times> flt)" where
  "auc_class l out num_recordings =
     (case make_thresholds out of
        Inl e \<Rightarrow> Inl e
      | Inr thresholds \<Rightarrow>
          Inr (auc_of_sweep l out (rev (np_argsort out)) num_recordings thresholds))"

text \<open>The loop over the classes \<open>k\<close>; the first exception ends it.\<close>

fun auc_classes :: "int matrix \<Rightarrow> rat matrix \<Rightarrow> nat \<Rightarrow> nat list \<Rightarrow> error + (flt \<times> flt) list" where
  "auc_classes labels outputs num_recordings [] = Inr []"
| "auc_classes labels outputs num_recordings (k # ks) =
     (case auc_class (column labels k) (column outputs k) num_recordings of
        Inl e \<Rightarrow> Inl e
      | Inr r \<Rightarrow>
         (case auc_classes labels outputs num_recordings ks of
            Inl e \<Rightarrow> Inl e
          | Inr rs \<Rightarrow> Inr (r # rs)))"

definition compute_auc :: "int matrix \<Rightarrow> rat matrix \<Rightarrow> error + (flt \<times> flt \<times> flt list \<times> flt list)" where
  "compute_auc labels outputs =
     (let (num_recordings, num_classes) = np_shape labels
      in case auc_classes labels outputs num_recordings [0..<num_classes] of
           Inl e \<Rightarrow> Inl e
         | Inr rs \<Rightarrow>
            (let auroc = map fst rs; auprc = map snd rs;
                 macro_auroc = (if list_ex isfinite auroc then nanmean auroc else NaN);
                 macro_auprc = (if list_ex isfinite auprc then nanmean auprc else NaN)
             in Inr (macro_auroc, macro_auprc, auroc, auprc)))"

subsection \<open>The modified confusion matrix and the challenge metric\<close>

text \<open>\<open>add2 A j k v\<close> is \<^verbatim>\<open>A[j, k] += v\<close>.\<close>

definition add2 :: "rat matrix \<Rightarrow> nat \<Rightarrow> nat \<Rightarrow> rat \<Rightarrow> rat matrix" where
  "add2 A j k v = A[j := (A ! j)[k := A ! j ! k + v]]"

text \<open>
  The body of the loop over the recordings, for the rows \<open>l\<close> and \<open>out\<close> of one recording.
  \<^verbatim>\<open>np.any((l, out), axis=0)\<close> is true at a class where either entry is different from zero.
\<close>

definition modified_row :: "nat \<Rightarrow> int list \<Rightarrow> int list \<Rightarrow> rat matrix \<Rightarrow> rat matrix" where
  "modified_row num_classes l out A =
     (let normalization =
            of_nat (max (length (filter (\<lambda>c. l ! c \<noteq> 0 \<or> out ! c \<noteq> 0) [0..<num_classes])) 1)
      in fold (\<lambda>j A. if l ! j \<noteq> 0
                      then fold (\<lambda>k A. if out ! k \<noteq> 0 then add2 A j k (1 / normalization) else A)
                             [0..<num_classes] A
                      else A)
           [0..<num_classes] A)"

definition compute_modified_confusion_matrix :: "int matrix \<Rightarrow> int matrix \<Rightarrow> rat matrix" where
  "compute_modified_confusion_matrix labels outputs =
     (let (num_recordings, num_classes) = np_shape labels;
          A = zeros2 num_classes num_classes
      in fold (\<lambda>i A. modified_row num_classes (labels ! i) (outputs ! i) A) [0..<num_recordings] A)"

text \<open>\<^verbatim>\<open>classes.index(x)\<close> for an \<open>x\<close> that occurs in \<open>classes\<close>: the first position.\<close>

fun list_index :: "'a list \<Rightarrow> 'a \<Rightarrow> nat" where
  "list_index [] x = 0"
| "list_index (y # ys) x = (if y = x then 0 else Suc (list_index ys x))"

subsection \<open>The challenge metric in rounded arithmetic\<close>

text \<open>
  \<^verbatim>\<open>compute_challenge_metric\<close> compares two computed sums and divides by their difference, so
  its result depends on the rounding of every operation before. In this subsection the
  result of an arithmetic operation on floating point numbers is \<open>rnd\<close> applied to the exact
  result, for a parameter \<open>rnd\<close>; \<open>fsum\<close>, a second parameter, is numpy's sum of the entries of
  an array, whose order of additions numpy does not fix.

  \<open>add2_fl rnd A j k v\<close> is \<^verbatim>\<open>A[j, k] += v\<close>, and \<open>modified_row_fl\<close> and
  \<open>compute_modified_confusion_matrix_fl\<close> are \<^verbatim>\<open>_compute_modified_confusion_matrix\<close> once more,
  with the rounding and with the \<^verbatim>\<open>IndexError\<close> of \<^verbatim>\<open>outputs[i, :]\<close> for an array of outputs
  with fewer rows than the labels. The rows of the labels and of the outputs are taken to
  have the same number of columns.
\<close>

definition add2_fl :: "(rat \<Rightarrow> rat) \<Rightarrow> rat matrix \<Rightarrow> nat \<Rightarrow> nat \<Rightarrow> rat \<Rightarrow> rat matrix" where
  "add2_fl rnd A j k v = A[j := (A ! j)[k := rnd (A ! j ! k + v)]]"

definition modified_row_fl :: "(rat \<Rightarrow> rat) \<Rightarrow> nat \<Rightarrow> int list \<Rightarrow> int list \<Rightarrow> rat matrix
    \<Rightarrow> rat matrix" where
  "modified_row_fl rnd num_classes l out A =
     (let normalization =
            of_nat (max (length (filter (\<lambda>c. l ! c \<noteq> 0 \<or> out ! c \<noteq> 0) [0..<num_classes])) 1)
      in fold (\<lambda>j A. if l ! j \<noteq> 0
                      then fold (\<lambda>k A. if out ! k \<noteq> 0
                                        then add2_fl rnd A j k (rnd (1 / normalization)) else A)
                             [0..<num_classes] A
                      else A)
           [0..<num_classes] A)"

fun modified_rows_fl :: "(rat \<Rightarrow> rat) \<Rightarrow> nat \<Rightarrow> int matrix \<Rightarrow> int matrix \<Rightarrow> nat list
    \<Rightarrow> rat matrix \<Rightarrow> error + rat matrix" where
  "modified_rows_fl rnd num_classes labels outputs [] A = Inr A"
| "modified_rows_fl rnd num_classes labels outputs (i # is) A =
     (if i < length outputs
      then modified_rows_fl rnd num_classes labels outputs is
             (modified_row_fl rnd num_classes (labels ! i) (outputs ! i) A)
      else Inl IndexError)"

definition compute_modified_confusion_matrix_fl :: "(rat \<Rightarrow> rat) \<Rightarrow> int matrix \<Rightarrow> int matrix
    \<Rightarrow> error + rat matrix" where
  "compute_modified_confusion_matrix_fl rnd labels outputs =
     (let (num_recordings, num_classes) = np_shape labels;
          A = zeros2 num_classes num_classes
      in modified_rows_fl rnd num_classes labels outputs [0..<num_recordings] A)"

text \<open>
  The elementwise product \<^verbatim>\<open>weights * A\<close> with numpy's broadcasting of two-dimensional
  arrays: two lengths of a dimension fit when they are equal or one of them is one, and the
  array with the length one is repeated along that dimension; otherwise numpy raises
  \<^verbatim>\<open>ValueError\<close>. A product with a NaN weight is NaN.
\<close>

definition broadcast_dim :: "nat \<Rightarrow> nat \<Rightarrow> nat option" where
  "broadcast_dim a b =
     (if a = b then Some a else if a = 1 then Some b else if b = 1 then Some a else None)"

fun flt_mul_rnd :: "(rat \<Rightarrow> rat) \<Rightarrow> flt \<Rightarrow> rat \<Rightarrow> flt" where
  "flt_mul_rnd rnd NaN a = NaN"
| "flt_mul_rnd rnd (Fin w) a = Fin (rnd (w * a))"

definition np_multiply :: "(rat \<Rightarrow> rat) \<Rightarrow> flt matrix \<Rightarrow> rat matrix \<Rightarrow> error + flt matrix" where
  "np_multiply rnd weights A =
     (let (wr, wc) = np_shape weights; (ar, ac) = np_shape A
      in case (broadcast_dim wr ar, broadcast_dim wc ac) of
           (Some n, Some m) \<Rightarrow>
             Inr (map (\<lambda>j. map (\<lambda>k. flt_mul_rnd rnd
                                     (weights ! (if wr = 1 then 0 else j) ! (if wc = 1 then 0 else k))
                                     (A ! (if ar = 1 then 0 else j) ! (if ac = 1 then 0 else k)))
                             [0..<m])
                    [0..<n])
         | _ \<Rightarrow> Inl ValueError_broadcast)"

text \<open>\<^verbatim>\<open>np.nansum\<close> of a two-dimensional array: the sum of all entries, NaN replaced by zero.\<close>

definition np_nansum :: "(rat list \<Rightarrow> rat) \<Rightarrow> flt matrix \<Rightarrow> rat" where
  "np_nansum fsum M = fsum (map nan_to_zero (concat M))"

text \<open>
  The two lines \<^verbatim>\<open>A = _compute_modified_confusion_matrix(labels, outputs)\<close> and
  \<^verbatim>\<open>score = np.nansum(weights * A)\<close>, which the function runs three times.
\<close>

definition weighted_confusion_score :: "(rat \<Rightarrow> rat) \<Rightarrow> (rat list \<Rightarrow> rat) \<Rightarrow> flt matrix
    \<Rightarrow> int matrix \<Rightarrow> int matrix \<Rightarrow> error + rat" where
  "weighted_confusion_score rnd fsum weights labels outputs =
     (case compute_modified_confusion_matrix_fl rnd labels outputs of
        Inl e \<Rightarrow> Inl e
      | Inr A \<Rightarrow>
         (case np_multiply rnd weights A of
            Inl e \<Rightarrow> Inl e
          | Inr P \<Rightarrow> Inr (np_nansum fsum P)))"

text \<open>
  The assignment \<^verbatim>\<open>inactive_outputs[:, sinus_rhythm_index] = 1\<close> raises \<^verbatim>\<open>IndexError\<close> when
  the index is not a column of the array. The final division is one of Python floats and
  raises \<^verbatim>\<open>ZeroDivisionError\<close> for a divisor zero; the divisor is the rounded difference of
  two different scores, which is not zero in IEEE 754 arithmetic.
\<close>

definition compute_challenge_metric :: "(rat \<Rightarrow> rat) \<Rightarrow> (rat list \<Rightarrow> rat) \<Rightarrow> flt matrix
    \<Rightarrow> int matrix \<Rightarrow> int matrix \<Rightarrow> string list \<Rightarrow> string \<Rightarrow> error + flt" where
  "compute_challenge_metric rnd fsum weights labels outputs classes sinus_rhythm =
     (let (num_recordings, num_classes) = np_shape labels
      in if sinus_rhythm \<in> set classes then
           (let sinus_rhythm_index = list_index classes sinus_rhythm
            in case weighted_confusion_score rnd fsum weights labels outputs of
                 Inl e \<Rightarrow> Inl e
               | Inr observed_score \<Rightarrow>
                  (let correct_outputs = labels
                   in case weighted_confusion_score rnd fsum weights labels correct_outputs of
                        Inl e \<Rightarrow> Inl e
                      | Inr correct_score \<Rightarrow>
                         if sinus_rhythm_index \<ge> num_classes then Inl IndexError
                         else
                          (let inactive_outputs =
                                 map (\<lambda>row. row[sinus_rhythm_index := 1])
                                   (zeros2 num_recordings num_classes)
                           in case weighted_confusion_score rnd fsum weights labels
                                     inactive_outputs of
                                Inl e \<Rightarrow> Inl e
                              | Inr inactive_score \<Rightarrow>
                                 if correct_score \<noteq> inactive_score then
                                   (if rnd (correct_score - inactive_score) = 0
                                    then Inl ZeroDivisionError
                                    else Inr (Fin (rnd (rnd (observed_score - inactive_score)
                                                        / rnd (correct_score - inactive_score)))))
                                 else Inr (Fin 0))))
         else Inl ValueError_sinus_rhythm)"

subsection \<open>Notions used to state the properties\<close>

text \<open>
  The shape \<open>(r, c)\<close> of an array given as a list of rows, and arrays with entries in
  \<open>{0, 1}\<close>.
\<close>

definition has_shape :: "'a matrix \<Rightarrow> nat \<Rightarrow> nat \<Rightarrow> bool" where
  "has_shape m r c = (length m = r \<and> list_all (\<lambda>row. length row = c) m)"

definition binary_entries :: "int matrix \<Rightarrow> bool" where
  "binary_entries m = list_all (list_all (\<lambda>x. x = 0 \<or> x = 1)) m"

text \<open>
  The fraction of recordings whose row of predictions is equal to its row of labels.
\<close>

definition exact_match_fraction :: "int matrix \<Rightarrow> int matrix \<Rightarrow> rat" where
  "exact_match_fraction labels outputs =
     of_nat (length (filter (\<lambda>i. outputs ! i = labels ! i) [0..<length labels]))
       / of_nat (length labels)"

text \<open>
  The number of recordings whose label for class \<open>k\<close> is \<open>lv\<close> and whose prediction for
  class \<open>k\<close> is \<open>ov\<close>.
\<close>

definition count_cell :: "int matrix \<Rightarrow> int matrix \<Rightarrow> nat \<Rightarrow> int \<Rightarrow> int \<Rightarrow> nat" where
  "count_cell labels outputs k lv ov =
     length (filter (\<lambda>i. labels ! i ! k = lv \<and> outputs ! i ! k = ov) [0..<length labels])"

text \<open>
  The shape \<open>(c, 2, 2)\<close> of the array of confusion matrices.
\<close>

definition wf3 :: "rat list list list \<Rightarrow> nat \<Rightarrow> bool" where
  "wf3 A c = (length A = c \<and> (\<forall>k<c. length (A ! k) = 2 \<and> length (A ! k ! 0) = 2 \<and> length (A ! k ! 1) = 2))"

text \<open>
  The modified confusion matrix in closed form. \<open>union_size l out\<close> is the number of classes
  that are positive in the labels or in the predictions of one recording; the entry for
  true class \<open>j\<close> and predicted class \<open>k\<close> is the sum, over the recordings with label \<open>j\<close> and
  prediction \<open>k\<close>, of one over the larger of that number and one.
\<close>

definition union_size :: "int list \<Rightarrow> int list \<Rightarrow> nat" where
  "union_size l out = length (filter (\<lambda>c. l ! c = 1 \<or> out ! c = 1) [0..<length l])"

definition modified_confusion_entry :: "int matrix \<Rightarrow> int matrix \<Rightarrow> nat \<Rightarrow> nat \<Rightarrow> rat" where
  "modified_confusion_entry labels outputs j k =
     sum_list (map (\<lambda>i. if labels ! i ! j = 1 \<and> outputs ! i ! k = 1
                         then 1 / of_nat (max (union_size (labels ! i) (outputs ! i)) 1) else 0)
               [0..<length labels])"

text \<open>
  The challenge score in closed form. \<open>weighted_score W M c\<close> is the sum over all pairs of
  classes of the weight times the entry \<open>M j k\<close>, leaving out the pairs whose weight is NaN;
  \<open>default_only r c d\<close> is the array of predictions that is positive for class \<open>d\<close> alone
  in every recording.
\<close>

definition weighted_score :: "flt matrix \<Rightarrow> (nat \<Rightarrow> nat \<Rightarrow> rat) \<Rightarrow> nat \<Rightarrow> rat" where
  "weighted_score W M c =
     (\<Sum>j\<leftarrow>[0..<c]. \<Sum>k\<leftarrow>[0..<c]. case W ! j ! k of NaN \<Rightarrow> 0 | Fin w \<Rightarrow> w * M j k)"

definition default_only :: "nat \<Rightarrow> nat \<Rightarrow> nat \<Rightarrow> int matrix" where
  "default_only r c d = replicate r (map (\<lambda>k. if k = d then 1 else 0) [0..<c])"

text \<open>
  Notions for the sweep. \<open>sorts_descending idx out\<close>: the index list \<open>idx\<close> is a permutation
  of the record indices along which the scores do not increase. \<open>pos_upto l idx c\<close> and
  \<open>neg_upto l idx c\<close>: the numbers of records among the first \<open>c\<close> of \<open>idx\<close> whose label is
  different from zero, and equal to zero.
\<close>

definition sorts_descending :: "nat list \<Rightarrow> rat list \<Rightarrow> bool" where
  "sorts_descending idx out =
     (mset idx = mset [0..<length out] \<and> sorted_wrt (\<lambda>a b. out ! a \<ge> out ! b) idx)"

definition pos_upto :: "int list \<Rightarrow> nat list \<Rightarrow> nat \<Rightarrow> int" where
  "pos_upto l idx c = int (length (filter (\<lambda>i. l ! i \<noteq> 0) (take c idx)))"

definition neg_upto :: "int list \<Rightarrow> nat list \<Rightarrow> nat \<Rightarrow> int" where
  "neg_upto l idx c = int (length (filter (\<lambda>i. l ! i = 0) (take c idx)))"

definition cnt_ge :: "rat list \<Rightarrow> nat list \<Rightarrow> rat \<Rightarrow> nat" where
  "cnt_ge out idx t = length (filter (\<lambda>i. t \<le> out ! i) idx)"

text \<open>
  The invariant of the outer loop after the iterations \<open>j = 1, \<dots>, m - 1\<close>: the cursor is the
  number of records with a score of at least the threshold \<open>m - 1\<close>, and the entries
  \<open>j < m\<close> of the four arrays count the records absorbed up to threshold \<open>j\<close>.
\<close>

definition sweep_inv :: "int list \<Rightarrow> rat list \<Rightarrow> nat list \<Rightarrow> rat list \<Rightarrow> nat \<Rightarrow> sweep \<Rightarrow> bool" where
  "sweep_inv l out idx thr m s =
     (length (sw_tp s) = length thr \<and> length (sw_fp s) = length thr
      \<and> length (sw_fn s) = length thr \<and> length (sw_tn s) = length thr
      \<and> sw_i s = cnt_ge out idx (thr ! (m - 1))
      \<and> (\<forall>j<m. sw_tp s ! j = pos_upto l idx (cnt_ge out idx (thr ! j))
               \<and> sw_fp s ! j = neg_upto l idx (cnt_ge out idx (thr ! j))
               \<and> sw_fn s ! j = int (length (filter (\<lambda>x. x = 1) l))
                                 - pos_upto l idx (cnt_ge out idx (thr ! j))
               \<and> sw_tn s ! j = int (length (filter (\<lambda>x. x = 0) l))
                                 - neg_upto l idx (cnt_ge out idx (thr ! j))))"

text \<open>
  The sweep as the specification describes it. The thresholds are the distinct scores in
  descending order behind one more threshold, the largest score plus one. At a threshold
  \<open>t\<close> the records with a score of at least \<open>t\<close> have been absorbed: the positive ones
  among them are the true positives and the negative ones the false positives; the
  positive and negative records not yet absorbed are the false and the true negatives.
\<close>

definition thresholds_spec :: "rat list \<Rightarrow> rat list" where
  "thresholds_spec out = (Max (set out) + 1) # rev (sorted_list_of_set (set out))"

definition tp_at :: "int list \<Rightarrow> rat list \<Rightarrow> rat \<Rightarrow> int" where
  "tp_at l out t = int (length (filter (\<lambda>i. t \<le> out ! i \<and> l ! i = 1) [0..<length out]))"

definition fp_at :: "int list \<Rightarrow> rat list \<Rightarrow> rat \<Rightarrow> int" where
  "fp_at l out t = int (length (filter (\<lambda>i. t \<le> out ! i \<and> l ! i = 0) [0..<length out]))"

definition fn_at :: "int list \<Rightarrow> rat list \<Rightarrow> rat \<Rightarrow> int" where
  "fn_at l out t = int (length (filter (\<lambda>i. \<not> t \<le> out ! i \<and> l ! i = 1) [0..<length out]))"

definition tn_at :: "int list \<Rightarrow> rat list \<Rightarrow> rat \<Rightarrow> int" where
  "tn_at l out t = int (length (filter (\<lambda>i. \<not> t \<le> out ! i \<and> l ! i = 0) [0..<length out]))"

definition tpr_at :: "int list \<Rightarrow> rat list \<Rightarrow> rat \<Rightarrow> flt" where
  "tpr_at l out t = rate (tp_at l out t) (tp_at l out t + fn_at l out t)"

definition tnr_at :: "int list \<Rightarrow> rat list \<Rightarrow> rat \<Rightarrow> flt" where
  "tnr_at l out t = rate (tn_at l out t) (fp_at l out t + tn_at l out t)"

definition ppv_at :: "int list \<Rightarrow> rat list \<Rightarrow> rat \<Rightarrow> flt" where
  "ppv_at l out t = rate (tp_at l out t) (tp_at l out t + fp_at l out t)"

text \<open>A sum of floating point values: NaN as soon as one summand is NaN.\<close>

definition flt_sum :: "flt list \<Rightarrow> flt" where
  "flt_sum xs = (if list_all isfinite xs then Fin (sum_list (map nan_to_zero xs)) else NaN)"

definition auroc_spec :: "int list \<Rightarrow> rat list \<Rightarrow> flt" where
  "auroc_spec l out =
     (let thr = thresholds_spec out
      in flt_sum (map (\<lambda>j. flt_mul (flt_mul (Fin (1 / 2))
                                (flt_sub (tpr_at l out (thr ! (j + 1))) (tpr_at l out (thr ! j))))
                              (flt_add (tnr_at l out (thr ! (j + 1))) (tnr_at l out (thr ! j))))
                 [0..<length thr - 1]))"

definition auprc_spec :: "int list \<Rightarrow> rat list \<Rightarrow> flt" where
  "auprc_spec l out =
     (let thr = thresholds_spec out
      in flt_sum (map (\<lambda>j. flt_mul (flt_sub (tpr_at l out (thr ! (j + 1))) (tpr_at l out (thr ! j)))
                              (ppv_at l out (thr ! (j + 1))))
                 [0..<length thr - 1]))"

text \<open>
  The four counts \<open>(tp, fp, fn, tn)\<close> at a threshold \<open>t\<close> for labels that are arbitrary
  integers, as the loop computes them: a record is moved as a positive one when its label is
  different from zero, while the initial counts are those of the labels equal to one and
  equal to zero. \<open>auc_closed\<close> is the pair of sums over these counts.
\<close>

definition sweep_counts :: "int list \<Rightarrow> rat list \<Rightarrow> rat \<Rightarrow> int \<times> int \<times> int \<times> int" where
  "sweep_counts l out t =
     (let tp = int (length (filter (\<lambda>i. t \<le> out ! i \<and> l ! i \<noteq> 0) [0..<length out]));
          fp = int (length (filter (\<lambda>i. t \<le> out ! i \<and> l ! i = 0) [0..<length out]))
      in (tp, fp, int (length (filter (\<lambda>x. x = 1) l)) - tp,
                  int (length (filter (\<lambda>x. x = 0) l)) - fp))"

definition auc_closed :: "int list \<Rightarrow> rat list \<Rightarrow> flt \<times> flt" where
  "auc_closed l out =
     (let thr = thresholds_spec out;
          tpr = (\<lambda>j. case sweep_counts l out (thr ! j) of (tp, fp, fn, tn) \<Rightarrow> rate tp (tp + fn));
          tnr = (\<lambda>j. case sweep_counts l out (thr ! j) of (tp, fp, fn, tn) \<Rightarrow> rate tn (fp + tn));
          ppv = (\<lambda>j. case sweep_counts l out (thr ! j) of (tp, fp, fn, tn) \<Rightarrow> rate tp (tp + fp))
      in (flt_sum (map (\<lambda>j. flt_mul (flt_mul (Fin (1 / 2)) (flt_sub (tpr (j + 1)) (tpr j)))
                                   (flt_add (tnr (j + 1)) (tnr j)))
                     [0..<length thr - 1]),
          flt_sum (map (\<lambda>j. flt_mul (flt_sub (tpr (j + 1)) (tpr j)) (ppv (j + 1)))
                     [0..<length thr - 1])))"

text \<open>
  The macro average: the mean of the values that are not NaN, and NaN when there is none.
\<close>

definition macro_mean :: "flt list \<Rightarrow> flt" where
  "macro_mean xs =
     (let defined = filter isfinite xs
      in if defined = [] then NaN
         else Fin (sum_list (map nan_to_zero defined) / of_nat (length defined)))"

text \<open>
  The entries of the modified confusion matrix in rounded arithmetic: the sum, in the order
  of the recordings and rounded after every addition, of the rounded quotients
  \<open>1 / max (union_size \<dots>) 1\<close> of the recordings with label \<open>j\<close> and prediction \<open>k\<close>.
  \<open>weighted_score_fl\<close> is the sum, by \<open>fsum\<close>, of the rounded products of the weights and the
  entries \<open>M j k\<close>, with zero in the place of a product whose weight is NaN.
\<close>

definition modified_confusion_entry_fl :: "(rat \<Rightarrow> rat) \<Rightarrow> int matrix \<Rightarrow> int matrix \<Rightarrow> nat \<Rightarrow> nat
    \<Rightarrow> rat" where
  "modified_confusion_entry_fl rnd labels outputs j k =
     fold (\<lambda>i a. if labels ! i ! j = 1 \<and> outputs ! i ! k = 1
                  then rnd (a + rnd (1 / of_nat (max (union_size (labels ! i) (outputs ! i)) 1)))
                  else a)
       [0..<length labels] 0"

definition weighted_score_fl :: "(rat \<Rightarrow> rat) \<Rightarrow> (rat list \<Rightarrow> rat) \<Rightarrow> flt matrix
    \<Rightarrow> (nat \<Rightarrow> nat \<Rightarrow> rat) \<Rightarrow> nat \<Rightarrow> rat" where
  "weighted_score_fl rnd fsum W M c =
     fsum (concat (map (\<lambda>j. map (\<lambda>k. case W ! j ! k of NaN \<Rightarrow> 0 | Fin w \<Rightarrow> rnd (w * M j k))
                               [0..<c])
                     [0..<c]))"

text \<open>
  Notions for the confusion matrices in both modes. \<open>record_weight normalized l\<close> is the
  increment of a recording with the row of labels \<open>l\<close>: one, or one over the larger of the
  number of its positive labels and one. \<open>cell_total normalized labels outputs k lv ov\<close> is
  the sum of the increments of the recordings whose label for class \<open>k\<close> is \<open>lv\<close> and whose
  prediction for class \<open>k\<close> is \<open>ov\<close>. \<open>binarize m\<close> is the array \<open>m\<close> with one in the place of
  every entry different from zero.
\<close>

definition record_weight :: "bool \<Rightarrow> int list \<Rightarrow> rat" where
  "record_weight normalized l = (if normalized then 1 / of_int (max (sum_list l) 1) else 1)"

definition cell_total :: "bool \<Rightarrow> int matrix \<Rightarrow> int matrix \<Rightarrow> nat \<Rightarrow> int \<Rightarrow> int \<Rightarrow> rat" where
  "cell_total normalized labels outputs k lv ov =
     sum_list (map (\<lambda>i. if labels ! i ! k = lv \<and> outputs ! i ! k = ov
                         then record_weight normalized (labels ! i) else 0)
               [0..<length labels])"

definition binarize :: "int matrix \<Rightarrow> int matrix" where
  "binarize m = map (map (\<lambda>x. if x = 0 then 0 else 1)) m"

section \<open>Properties\<close>

subsection \<open>Shapes\<close>

lemma np_shape_has_shape:
  assumes "has_shape m r c" "0 < r"
  shows "np_shape m = (r, c)"
  using assms by (cases m) (auto simp: has_shape_def np_shape_def)

lemma has_shape_row: "has_shape m r c \<Longrightarrow> i < r \<Longrightarrow> length (m ! i) = c"
  by (auto simp: has_shape_def list_all_length)

lemma has_shape_length: "has_shape m r c \<Longrightarrow> length m = r"
  by (simp add: has_shape_def)

subsection \<open>Accuracy\<close>

lemma rows_all_equal_iff:
  assumes "length l = c" "length out = c"
  shows "rows_all_equal c l out \<longleftrightarrow> out = l"
  using assms by (auto simp: rows_all_equal_def list_all_iff intro: nth_equalityI)

lemma fold_count_filter:
  "fold (\<lambda>i n. if P i then n + 1 else n) xs (k::nat) = k + length (filter P xs)"
  by (induction xs arbitrary: k) auto

lemma compute_accuracy_exact_match:
  assumes "has_shape labels r c" "has_shape outputs r c" "0 < r"
  shows "compute_accuracy labels outputs = Inr (Fin (exact_match_fraction labels outputs))"
proof -
  have len: "length labels = r" using assms(1) by (simp add: has_shape_def)
  have eq: "filter (\<lambda>i. rows_all_equal c (labels ! i) (outputs ! i)) [0..<r]
          = filter (\<lambda>i. outputs ! i = labels ! i) [0..<r]"
    by (rule filter_cong)
       (auto simp: rows_all_equal_iff has_shape_row [OF assms(1)] has_shape_row [OF assms(2)])
  show ?thesis
    using assms(3)
    by (simp add: compute_accuracy_def np_shape_has_shape [OF assms(1) assms(3)]
        fold_count_filter eq exact_match_fraction_def len)
qed

lemma scenario_confusion:
  "compute_confusion_matrices [[1, 0], [0, 1]] [[1, 0], [1, 0]] False
       = Inr [[[0, 0], [1, 1]], [[1, 1], [0, 0]]]"
  by code_simp

lemma scenario_f_measure:
  "compute_f_measure [[1, 0], [0, 1]] [[1, 0], [1, 0]] = Inr (Fin (1 / 3), [Fin (2 / 3), Fin 0])"
  by code_simp

lemma scenario_accuracy:
  "compute_accuracy [[1, 0], [0, 1]] [[1, 0], [1, 0]] = Inr (Fin (1 / 2))"
  by code_simp

text \<open>
  Claim C5, as the code has it. \<open>compute_accuracy\<close> returns the fraction of recordings
  whose row of predictions is equal to the row of labels. On the classes \<open>[N, A]\<close> with
  labels \<open>[[1,0],[0,1]]\<close> and predictions \<open>[[1,0],[1,0]]\<close> the confusion matrices
  \<open>[[TN, FN], [FP, TP]]\<close> are \<open>[[0, 0], [1, 1]]\<close> for class N (one true positive, one false
  positive) and \<open>[[1, 1], [0, 0]]\<close> for class A (one true negative, one false negative); the
  F1 scores are \<open>2/3\<close> and \<open>0\<close>, their mean \<open>1/3\<close>, and the accuracy is \<open>1/2\<close>.
\<close>

theorem accuracy_exact_match_and_scenario:
  assumes "has_shape labels r c" "has_shape outputs r c" "0 < r"
  shows "compute_accuracy labels outputs = Inr (Fin (exact_match_fraction labels outputs))
       \<and> compute_confusion_matrices [[1, 0], [0, 1]] [[1, 0], [1, 0]] False
           = Inr [[[0, 0], [1, 1]], [[1, 1], [0, 0]]]
       \<and> compute_f_measure [[1, 0], [0, 1]] [[1, 0], [1, 0]]
           = Inr (Fin (1 / 3), [Fin (2 / 3), Fin 0])
       \<and> compute_accuracy [[1, 0], [0, 1]] [[1, 0], [1, 0]] = Inr (Fin (1 / 2))"
  using compute_accuracy_exact_match [OF assms] scenario_confusion scenario_f_measure
    scenario_accuracy
  by simp

theorem accuracy_exact_match_and_scenario_witness:
  "has_shape [[1, 0], [0, 1 :: int]] 2 2 \<and> has_shape [[1, 0], [1, 0 :: int]] 2 2 \<and> (0::nat) < 2
   \<and> exact_match_fraction [[1, 0], [0, 1]] [[1, 0], [1, 0]] = 1 / 2
   \<and> compute_accuracy [[1, 0], [0, 1]] [[1, 0], [1, 0]]
       = Inr (Fin (exact_match_fraction [[1, 0], [0, 1]] [[1, 0], [1, 0]]))"
proof -
  have a: "has_shape [[1, 0], [0, 1 :: int]] 2 2" by (simp add: has_shape_def)
  have b: "has_shape [[1, 0], [1, 0 :: int]] 2 2" by (simp add: has_shape_def)
  have c: "(0::nat) < 2" by simp
  have d: "exact_match_fraction [[1, 0], [0, 1]] [[1, 0], [1, 0]] = 1 / 2" by code_simp
  show ?thesis
    using a b c d accuracy_exact_match_and_scenario [OF a b c] by simp
qed

text \<open>
  The values the scenario was expected to give, \<open>TP = 2, FP = 0\<close> and F1 \<open>= 1\<close> for class N
  and F1 \<open>= NaN\<close> for class A, are not the values computed.
\<close>

theorem scenario_expected_values_counterexample:
  "compute_confusion_matrices [[1, 0], [0, 1]] [[1, 0], [1, 0]] False
       \<noteq> Inr [[[0, 0], [0, 2]], [[1, 1], [0, 0]]]
   \<and> (case compute_f_measure [[1, 0], [0, 1]] [[1, 0], [1, 0]] of
         Inl e \<Rightarrow> [] | Inr (m, f) \<Rightarrow> f) \<noteq> [Fin 1, NaN]"
  by (simp add: scenario_confusion scenario_f_measure)

subsection \<open>Per-class confusion matrices\<close>

lemma lt2_cases: "(a::nat) < 2 \<Longrightarrow> a = 0 \<or> a = 1"
  by arith

lemma wf3_inner: "wf3 A c \<Longrightarrow> k < c \<Longrightarrow> a < 2 \<Longrightarrow> length (A ! k ! a) = 2"
  using lt2_cases [of a] by (auto simp: wf3_def)

lemma add3_wf3:
  assumes "wf3 A c"
  shows "wf3 (add3 A j a b v) c"
  unfolding wf3_def
proof (intro conjI allI impI)
  show "length (add3 A j a b v) = c" using assms by (simp add: add3_def wf3_def)
next
  fix k assume k: "k < c"
  have lenA: "length A = c" and lk: "length (A ! k) = 2"
    using assms k by (auto simp: wf3_def)
  show "length (add3 A j a b v ! k) = 2"
    using k lenA lk by (cases "k = j") (simp_all add: add3_def)
  show "length (add3 A j a b v ! k ! 0) = 2"
    using k lenA lk wf3_inner [OF assms k, of 0]
    by (cases "k = j"; cases "a = 0") (simp_all add: add3_def)
  show "length (add3 A j a b v ! k ! 1) = 2"
    using k lenA lk wf3_inner [OF assms k, of 1]
    by (cases "k = j"; cases "a = 1") (simp_all add: add3_def)
qed

lemma add3_cell:
  assumes "wf3 A c" "j < c" "a < 2" "b < 2" "k < c" "a' < 2" "b' < 2"
  shows "add3 A j a b v ! k ! a' ! b'
       = A ! k ! a' ! b' + (if k = j \<and> a' = a \<and> b' = b then v else 0)"
proof -
  have lenA: "length A = c" and lj: "length (A ! j) = 2" and lja: "length (A ! j ! a) = 2"
    using assms wf3_inner [OF assms(1,2,3)] by (auto simp: wf3_def)
  show ?thesis
    using assms(2-) lenA lj lja
    by (cases "k = j"; cases "a' = a"; cases "b' = b") (simp_all add: add3_def)
qed

lemma confusion_row_binary:
  assumes "wf3 A c" "\<forall>j\<in>set js. j < c" "distinct js"
    "\<forall>j\<in>set js. (l ! j = 0 \<or> l ! j = 1) \<and> (out ! j = 0 \<or> out ! j = 1)"
  shows "\<exists>A'. confusion_row inc l out js A = Inr A' \<and> wf3 A' c
        \<and> (\<forall>k<c. \<forall>a<2. \<forall>b<2. A' ! k ! a ! b
              = A ! k ! a ! b + (if k \<in> set js \<and> out ! k = int a \<and> l ! k = int b then inc else 0))"
  using assms
proof (induction js arbitrary: A)
  case Nil
  then show ?case by simp
next
  case (Cons j js)
  have jc: "j < c" and jn: "j \<notin> set js" using Cons.prems by auto
  define a where "a = nat (out ! j)"
  define b where "b = nat (l ! j)"
  have ab: "a < 2" "b < 2" "out ! j = int a" "l ! j = int b"
    using Cons.prems(4) by (auto simp: a_def b_def)
  have step: "confusion_row inc l out (j # js) A = confusion_row inc l out js (add3 A j a b inc)"
    using Cons.prems(4) by (auto simp: a_def b_def)
  have wf': "wf3 (add3 A j a b inc) c" by (rule add3_wf3 [OF Cons.prems(1)])
  from Cons.IH [OF wf'] Cons.prems
  obtain A' where A': "confusion_row inc l out js (add3 A j a b inc) = Inr A'" "wf3 A' c"
    "\<forall>k<c. \<forall>a'<2. \<forall>b'<2. A' ! k ! a' ! b'
        = add3 A j a b inc ! k ! a' ! b'
          + (if k \<in> set js \<and> out ! k = int a' \<and> l ! k = int b' then inc else 0)"
    by auto
  have "\<forall>k<c. \<forall>a'<2. \<forall>b'<2. A' ! k ! a' ! b'
        = A ! k ! a' ! b'
          + (if k \<in> set (j # js) \<and> out ! k = int a' \<and> l ! k = int b' then inc else 0)"
  proof (intro allI impI)
    fix k a' b' assume h: "k < c" "a' < (2::nat)" "b' < (2::nat)"
    have "A' ! k ! a' ! b' = add3 A j a b inc ! k ! a' ! b'
          + (if k \<in> set js \<and> out ! k = int a' \<and> l ! k = int b' then inc else 0)"
      using A'(3) h by blast
    also have "add3 A j a b inc ! k ! a' ! b'
       = A ! k ! a' ! b' + (if k = j \<and> a' = a \<and> b' = b then inc else 0)"
      by (rule add3_cell [OF Cons.prems(1) jc ab(1,2) h])
    finally show "A' ! k ! a' ! b' = A ! k ! a' ! b'
          + (if k \<in> set (j # js) \<and> out ! k = int a' \<and> l ! k = int b' then inc else 0)"
      using jn ab by auto
  qed
  with A' step show ?case by auto
qed

lemma confusion_row_not_binary:
  assumes "\<exists>j\<in>set js. \<not> ((l ! j = 0 \<or> l ! j = 1) \<and> (out ! j = 0 \<or> out ! j = 1))"
  shows "confusion_row inc l out js A = Inl ValueError"
  using assms
proof (induction js arbitrary: A)
  case Nil
  then show ?case by simp
next
  case (Cons j js)
  show ?case
  proof (cases "(l ! j = 0 \<or> l ! j = 1) \<and> (out ! j = 0 \<or> out ! j = 1)")
    case True
    then have "\<exists>j\<in>set js. \<not> ((l ! j = 0 \<or> l ! j = 1) \<and> (out ! j = 0 \<or> out ! j = 1))"
      using Cons.prems by auto
    from Cons.IH [OF this] show ?thesis by simp
  next
    case False
    then show ?thesis by auto
  qed
qed

lemma confusion_row_error_is_ValueError:
  "confusion_row inc l out js A = Inl e \<Longrightarrow> e = ValueError"
  by (induction js arbitrary: A) (auto split: if_splits)

lemma confusion_rows_binary:
  assumes "wf3 A c"
    "\<forall>i\<in>set is. \<forall>j<c. (labels ! i ! j = 0 \<or> labels ! i ! j = 1)
        \<and> (outputs ! i ! j = 0 \<or> outputs ! i ! j = 1)"
  shows "\<exists>A'. confusion_rows incr labels outputs c is A = Inr A' \<and> wf3 A' c
        \<and> (\<forall>k<c. \<forall>a<2. \<forall>b<2. A' ! k ! a ! b
              = A ! k ! a ! b
                + sum_list (map (\<lambda>i. if outputs ! i ! k = int a \<and> labels ! i ! k = int b
                                      then incr i else 0) is))"
  using assms
proof (induction "is" arbitrary: A)
  case Nil
  then show ?case by simp
next
  case (Cons i "is")
  have row: "\<forall>j\<in>set [0..<c]. (labels ! i ! j = 0 \<or> labels ! i ! j = 1)
        \<and> (outputs ! i ! j = 0 \<or> outputs ! i ! j = 1)"
    using Cons.prems(2) by simp
  from confusion_row_binary [OF Cons.prems(1) _ _ row, of "incr i"]
  obtain A1 where A1: "confusion_row (incr i) (labels ! i) (outputs ! i) [0..<c] A = Inr A1"
    "wf3 A1 c"
    "\<forall>k<c. \<forall>a<2. \<forall>b<2. A1 ! k ! a ! b
        = A ! k ! a ! b + (if outputs ! i ! k = int a \<and> labels ! i ! k = int b then incr i else 0)"
    by auto
  have rest: "\<forall>i\<in>set is. \<forall>j<c. (labels ! i ! j = 0 \<or> labels ! i ! j = 1)
        \<and> (outputs ! i ! j = 0 \<or> outputs ! i ! j = 1)"
    using Cons.prems(2) by simp
  from Cons.IH [OF A1(2) rest]
  obtain A' where A': "confusion_rows incr labels outputs c is A1 = Inr A'" "wf3 A' c"
    "\<forall>k<c. \<forall>a<2. \<forall>b<2. A' ! k ! a ! b
        = A1 ! k ! a ! b
          + sum_list (map (\<lambda>i. if outputs ! i ! k = int a \<and> labels ! i ! k = int b
                                then incr i else 0) is)"
    by blast
  have "\<forall>k<c. \<forall>a<2. \<forall>b<2. A' ! k ! a ! b
        = A ! k ! a ! b
          + sum_list (map (\<lambda>i. if outputs ! i ! k = int a \<and> labels ! i ! k = int b
                                then incr i else 0) (i # is))"
    using A'(3) A1(3) by simp
  with A1(1) A'(1,2) show ?case by simp
qed

lemma confusion_rows_not_binary:
  assumes "\<exists>i\<in>set is. \<exists>j<c. \<not> ((labels ! i ! j = 0 \<or> labels ! i ! j = 1)
        \<and> (outputs ! i ! j = 0 \<or> outputs ! i ! j = 1))"
  shows "confusion_rows incr labels outputs c is A = Inl ValueError"
  using assms
proof (induction "is" arbitrary: A)
  case Nil
  then show ?case by simp
next
  case (Cons i "is")
  show ?case
  proof (cases "confusion_row (incr i) (labels ! i) (outputs ! i) [0..<c] A")
    case (Inl e)
    then show ?thesis using confusion_row_error_is_ValueError [OF Inl] by simp
  next
    case (Inr A1)
    have "\<not> (\<exists>j\<in>set [0..<c]. \<not> ((labels ! i ! j = 0 \<or> labels ! i ! j = 1)
        \<and> (outputs ! i ! j = 0 \<or> outputs ! i ! j = 1)))"
      using confusion_row_not_binary [of "[0..<c]" "labels ! i" "outputs ! i" "incr i" A] Inr
      by auto
    then have "\<exists>i\<in>set is. \<exists>j<c. \<not> ((labels ! i ! j = 0 \<or> labels ! i ! j = 1)
        \<and> (outputs ! i ! j = 0 \<or> outputs ! i ! j = 1))"
      using Cons.prems by auto
    from Cons.IH [OF this] Inr show ?thesis by simp
  qed
qed

lemma wf3_zero: "wf3 (replicate c [[0, 0], [0, 0]]) c"
  by (simp add: wf3_def)

lemma binary_entries_nth:
  assumes "has_shape m r c"
  shows "binary_entries m \<longleftrightarrow> (\<forall>i<r. \<forall>j<c. m ! i ! j = 0 \<or> m ! i ! j = 1)"
  using assms
  by (auto simp: binary_entries_def has_shape_def list_all_length)

lemma sum_list_indicator:
  "sum_list (map (\<lambda>i. if P i then (1::rat) else 0) xs) = of_nat (length (filter P xs))"
  by (induction xs) auto

lemma list2_eq: "length xs = 2 \<Longrightarrow> xs = [xs ! 0, xs ! 1]"
  by (cases xs; cases "tl xs") auto

lemma confusion_matrices_binary:
  assumes sh: "has_shape labels r c" "has_shape outputs r c" "0 < r"
    and bin: "binary_entries labels" "binary_entries outputs"
  shows "\<exists>A. compute_confusion_matrices labels outputs False = Inr A \<and> length A = c
      \<and> (\<forall>k<c. A ! k = [[of_nat (count_cell labels outputs k 0 0), of_nat (count_cell labels outputs k 1 0)],
                         [of_nat (count_cell labels outputs k 0 1), of_nat (count_cell labels outputs k 1 1)]])"
proof -
  have b: "\<forall>i\<in>set [0..<r]. \<forall>j<c. (labels ! i ! j = 0 \<or> labels ! i ! j = 1)
        \<and> (outputs ! i ! j = 0 \<or> outputs ! i ! j = 1)"
    using bin binary_entries_nth [OF sh(1)] binary_entries_nth [OF sh(2)] by simp
  from confusion_rows_binary [OF wf3_zero b, of "\<lambda>i. 1"]
  obtain A where A: "confusion_rows (\<lambda>i. 1) labels outputs c [0..<r] (replicate c [[0, 0], [0, 0]]) = Inr A"
    "wf3 A c"
    "\<forall>k<c. \<forall>a<2. \<forall>b<2. A ! k ! a ! b
        = replicate c [[0, 0], [0, 0]] ! k ! a ! b
          + sum_list (map (\<lambda>i. if outputs ! i ! k = int a \<and> labels ! i ! k = int b
                                then 1 else 0) [0..<r])"
    by blast
  have res: "compute_confusion_matrices labels outputs False = Inr A"
    using A(1) by (simp add: compute_confusion_matrices_def np_shape_has_shape [OF sh(1,3)])
  have cell: "A ! k ! a ! b = of_nat (count_cell labels outputs k (int b) (int a))"
    if "k < c" "a < 2" "b < 2" for k a b
  proof -
    have z: "replicate c [[0, 0], [0, 0::rat]] ! k ! a ! b = 0"
      using that lt2_cases [of a] lt2_cases [of b] by auto
    have "A ! k ! a ! b = sum_list (map (\<lambda>i. if outputs ! i ! k = int a \<and> labels ! i ! k = int b
                                then 1 else 0) [0..<r])"
      using A(3) that z by simp
    also have "\<dots> = of_nat (length (filter (\<lambda>i. outputs ! i ! k = int a \<and> labels ! i ! k = int b) [0..<r]))"
      by (rule sum_list_indicator)
    also have "(\<lambda>i. outputs ! i ! k = int a \<and> labels ! i ! k = int b)
        = (\<lambda>i. labels ! i ! k = int b \<and> outputs ! i ! k = int a)"
      by auto
    finally show ?thesis
      by (simp add: count_cell_def has_shape_length [OF sh(1)])
  qed
  have "A ! k = [[of_nat (count_cell labels outputs k 0 0), of_nat (count_cell labels outputs k 1 0)],
                 [of_nat (count_cell labels outputs k 0 1), of_nat (count_cell labels outputs k 1 1)]]"
    if k: "k < c" for k
  proof -
    have l: "length (A ! k) = 2" "length (A ! k ! 0) = 2" "length (A ! k ! 1) = 2"
      using A(2) k by (auto simp: wf3_def)
    have "A ! k = [A ! k ! 0, A ! k ! 1]" by (rule list2_eq [OF l(1)])
    moreover have "A ! k ! 0 = [A ! k ! 0 ! 0, A ! k ! 0 ! 1]" by (rule list2_eq [OF l(2)])
    moreover have "A ! k ! 1 = [A ! k ! 1 ! 0, A ! k ! 1 ! 1]" by (rule list2_eq [OF l(3)])
    ultimately have "A ! k = [[A ! k ! 0 ! 0, A ! k ! 0 ! 1], [A ! k ! 1 ! 0, A ! k ! 1 ! 1]]"
      by simp
    then show ?thesis
      using cell [OF k, of 0 0] cell [OF k, of 0 1] cell [OF k, of 1 0] cell [OF k, of 1 1]
      by simp
  qed
  with res A(2) show ?thesis by (auto simp: wf3_def)
qed

lemma filter_four_way:
  assumes "\<forall>i\<in>set xs. (f i = 0 \<or> f i = (1::int)) \<and> (g i = 0 \<or> g i = (1::int))"
  shows "length (filter (\<lambda>i. f i = 0 \<and> g i = 0) xs) + length (filter (\<lambda>i. f i = 1 \<and> g i = 0) xs)
       + length (filter (\<lambda>i. f i = 0 \<and> g i = 1) xs) + length (filter (\<lambda>i. f i = 1 \<and> g i = 1) xs)
       = length xs"
  using assms by (induction xs) auto

lemma count_cell_sum:
  assumes sh: "has_shape labels r c" "has_shape outputs r c"
    and bin: "binary_entries labels" "binary_entries outputs" and k: "k < c"
  shows "count_cell labels outputs k 0 0 + count_cell labels outputs k 1 0
       + count_cell labels outputs k 0 1 + count_cell labels outputs k 1 1 = r"
proof -
  have "\<forall>i\<in>set [0..<r]. (labels ! i ! k = 0 \<or> labels ! i ! k = 1)
        \<and> (outputs ! i ! k = 0 \<or> outputs ! i ! k = 1)"
    using bin binary_entries_nth [OF sh(1)] binary_entries_nth [OF sh(2)] k by simp
  from filter_four_way [OF this] show ?thesis
    by (simp add: count_cell_def has_shape_length [OF sh(1)])
qed

lemma confusion_matrices_binary_returns:
  assumes sh: "has_shape labels r c" "has_shape outputs r c" "0 < r"
    and bin: "binary_entries labels" "binary_entries outputs"
  shows "\<exists>A. compute_confusion_matrices labels outputs normalized = Inr A"
proof -
  have b: "\<forall>i\<in>set [0..<r]. \<forall>j<c. (labels ! i ! j = 0 \<or> labels ! i ! j = 1)
        \<and> (outputs ! i ! j = 0 \<or> outputs ! i ! j = 1)"
    using bin binary_entries_nth [OF sh(1)] binary_entries_nth [OF sh(2)] by simp
  show ?thesis
    using confusion_rows_binary [OF wf3_zero b, of "\<lambda>i. 1"]
      confusion_rows_binary [OF wf3_zero b, of "\<lambda>i. 1 / of_int (max (sum_list (labels ! i)) 1)"]
    by (cases normalized)
       (auto simp: compute_confusion_matrices_def Let_def np_shape_has_shape [OF sh(1,3)])
qed

lemma confusion_matrices_not_binary:
  assumes sh: "has_shape labels r c" "has_shape outputs r c" "0 < r"
    and nbin: "\<not> (binary_entries labels \<and> binary_entries outputs)"
  shows "compute_confusion_matrices labels outputs normalized = Inl ValueError"
proof -
  have b: "\<exists>i\<in>set [0..<r]. \<exists>j<c. \<not> ((labels ! i ! j = 0 \<or> labels ! i ! j = 1)
        \<and> (outputs ! i ! j = 0 \<or> outputs ! i ! j = 1))"
    using nbin binary_entries_nth [OF sh(1)] binary_entries_nth [OF sh(2)] by auto
  show ?thesis
    using confusion_rows_not_binary [OF b]
    by (simp add: compute_confusion_matrices_def Let_def np_shape_has_shape [OF sh(1,3)])
qed

subsection \<open>The modified confusion matrix\<close>

lemma has_shape_nth:
  "has_shape m r c \<longleftrightarrow> length m = r \<and> (\<forall>i<r. length (m ! i) = c)"
  by (auto simp: has_shape_def list_all_length)

lemma add2_shape:
  assumes "has_shape A r c"
  shows "has_shape (add2 A j k v) r c"
  unfolding has_shape_nth
proof (intro conjI allI impI)
  show "length (add2 A j k v) = r" using assms by (simp add: add2_def has_shape_nth)
next
  fix i assume "i < r"
  then show "length (add2 A j k v ! i) = c"
    using assms by (cases "i = j") (simp_all add: add2_def has_shape_nth)
qed

lemma add2_entry:
  assumes "has_shape A r c" "j < r" "k < c" "j' < r" "k' < c"
  shows "add2 A j k v ! j' ! k' = A ! j' ! k' + (if j' = j \<and> k' = k then v else 0)"
  using assms by (cases "j' = j"; cases "k' = k") (simp_all add: has_shape_nth add2_def)

lemma inner_fold_entry:
  assumes "has_shape A c c" "j < c" "\<forall>k\<in>set ks. k < c" "distinct ks"
  shows "has_shape (fold (\<lambda>k A. if out ! k \<noteq> (0::int) then add2 A j k v else A) ks A) c c
       \<and> (\<forall>j'<c. \<forall>k'<c. fold (\<lambda>k A. if out ! k \<noteq> 0 then add2 A j k v else A) ks A ! j' ! k'
             = A ! j' ! k' + (if j' = j \<and> k' \<in> set ks \<and> out ! k' \<noteq> 0 then v else 0))"
  using assms
proof (induction ks arbitrary: A)
  case Nil
  then show ?case by simp
next
  case (Cons k ks)
  define A1 where "A1 = (if out ! k \<noteq> 0 then add2 A j k v else A)"
  have k: "k < c" "k \<notin> set ks" using Cons.prems by auto
  have sh1: "has_shape A1 c c" using Cons.prems(1) by (simp add: A1_def add2_shape)
  have e1: "A1 ! j' ! k' = A ! j' ! k' + (if j' = j \<and> k' = k \<and> out ! k' \<noteq> 0 then v else 0)"
    if "j' < c" "k' < c" for j' k'
    using add2_entry [OF Cons.prems(1) Cons.prems(2) k(1) that, of v] by (auto simp: A1_def)
  from Cons.IH [OF sh1 Cons.prems(2)] Cons.prems
  have ih: "has_shape (fold (\<lambda>k A. if out ! k \<noteq> 0 then add2 A j k v else A) ks A1) c c"
    "\<forall>j'<c. \<forall>k'<c. fold (\<lambda>k A. if out ! k \<noteq> 0 then add2 A j k v else A) ks A1 ! j' ! k'
             = A1 ! j' ! k' + (if j' = j \<and> k' \<in> set ks \<and> out ! k' \<noteq> 0 then v else 0)"
    by auto
  show ?case
    using ih e1 k by (auto simp: A1_def [symmetric])
qed

lemma outer_fold_entry:
  assumes "has_shape A c c" "\<forall>j\<in>set js. j < c" "distinct js"
  shows "has_shape (fold (\<lambda>j A. if l ! j \<noteq> (0::int)
                      then fold (\<lambda>k A. if out ! k \<noteq> (0::int) then add2 A j k v else A) [0..<c] A
                      else A) js A) c c
       \<and> (\<forall>j'<c. \<forall>k'<c. fold (\<lambda>j A. if l ! j \<noteq> 0
                      then fold (\<lambda>k A. if out ! k \<noteq> 0 then add2 A j k v else A) [0..<c] A
                      else A) js A ! j' ! k'
             = A ! j' ! k' + (if j' \<in> set js \<and> l ! j' \<noteq> 0 \<and> out ! k' \<noteq> 0 then v else 0))"
  using assms
proof (induction js arbitrary: A)
  case Nil
  then show ?case by simp
next
  case (Cons j js)
  define A1 where "A1 = (if l ! j \<noteq> 0
                      then fold (\<lambda>k A. if out ! k \<noteq> 0 then add2 A j k v else A) [0..<c] A
                      else A)"
  have j: "j < c" "j \<notin> set js" using Cons.prems by auto
  have inner: "has_shape (fold (\<lambda>k A. if out ! k \<noteq> 0 then add2 A j k v else A) [0..<c] A) c c"
    "\<forall>j'<c. \<forall>k'<c. fold (\<lambda>k A. if out ! k \<noteq> 0 then add2 A j k v else A) [0..<c] A ! j' ! k'
             = A ! j' ! k' + (if j' = j \<and> k' \<in> set [0..<c] \<and> out ! k' \<noteq> 0 then v else 0)"
    using inner_fold_entry [OF Cons.prems(1) j(1), of "[0..<c]" out v] by auto
  have sh1: "has_shape A1 c c" using Cons.prems(1) inner(1) by (simp add: A1_def)
  have e1: "A1 ! j' ! k' = A ! j' ! k' + (if j' = j \<and> l ! j' \<noteq> 0 \<and> out ! k' \<noteq> 0 then v else 0)"
    if "j' < c" "k' < c" for j' k'
    using inner(2) that by (auto simp: A1_def)
  from Cons.IH [OF sh1] Cons.prems
  have ih: "has_shape (fold (\<lambda>j A. if l ! j \<noteq> 0
                      then fold (\<lambda>k A. if out ! k \<noteq> 0 then add2 A j k v else A) [0..<c] A
                      else A) js A1) c c"
    "\<forall>j'<c. \<forall>k'<c. fold (\<lambda>j A. if l ! j \<noteq> 0
                      then fold (\<lambda>k A. if out ! k \<noteq> 0 then add2 A j k v else A) [0..<c] A
                      else A) js A1 ! j' ! k'
             = A1 ! j' ! k' + (if j' \<in> set js \<and> l ! j' \<noteq> 0 \<and> out ! k' \<noteq> 0 then v else 0)"
    by auto
  show ?case
    using ih e1 j by (auto simp: A1_def [symmetric])
qed

lemma modified_row_entry:
  assumes "has_shape A c c"
  shows "has_shape (modified_row c l out A) c c
       \<and> (\<forall>j<c. \<forall>k<c. modified_row c l out A ! j ! k
             = A ! j ! k + (if l ! j \<noteq> 0 \<and> out ! k \<noteq> 0
                 then 1 / of_nat (max (length (filter (\<lambda>c. l ! c \<noteq> 0 \<or> out ! c \<noteq> 0) [0..<c])) 1)
                 else 0))"
  using outer_fold_entry [OF assms, of "[0..<c]" l out]
  by (simp add: modified_row_def Let_def)

lemma modified_rows_entry:
  assumes "has_shape A c c"
  shows "has_shape (fold (\<lambda>i A. modified_row c (labels ! i) (outputs ! i) A) is A) c c
       \<and> (\<forall>j<c. \<forall>k<c. fold (\<lambda>i A. modified_row c (labels ! i) (outputs ! i) A) is A ! j ! k
             = A ! j ! k + sum_list (map (\<lambda>i. if labels ! i ! j \<noteq> 0 \<and> outputs ! i ! k \<noteq> 0
                 then 1 / of_nat (max (length (filter (\<lambda>c. labels ! i ! c \<noteq> 0 \<or> outputs ! i ! c \<noteq> 0) [0..<c])) 1)
                 else 0) is))"
  using assms
proof (induction "is" arbitrary: A)
  case Nil
  then show ?case by simp
next
  case (Cons i "is")
  from modified_row_entry [OF Cons.prems, of "labels ! i" "outputs ! i"]
  have r: "has_shape (modified_row c (labels ! i) (outputs ! i) A) c c"
    "\<forall>j<c. \<forall>k<c. modified_row c (labels ! i) (outputs ! i) A ! j ! k
             = A ! j ! k + (if labels ! i ! j \<noteq> 0 \<and> outputs ! i ! k \<noteq> 0
                 then 1 / of_nat (max (length (filter (\<lambda>c. labels ! i ! c \<noteq> 0 \<or> outputs ! i ! c \<noteq> 0) [0..<c])) 1)
                 else 0)"
    by auto
  from Cons.IH [OF r(1)] r(2) show ?case by simp
qed

lemma zeros2_shape: "has_shape (zeros2 r c :: rat matrix) r c"
  by (simp add: has_shape_nth zeros2_def)

lemma zeros2_entry: "j < r \<Longrightarrow> k < c \<Longrightarrow> (zeros2 r c :: rat matrix) ! j ! k = 0"
  by (simp add: zeros2_def)

text \<open>
  The entries of the computed matrix for arbitrary integer entries of the arrays: a label
  or a prediction counts as positive when it is different from zero.
\<close>

lemma modified_confusion_matrix_truthy:
  assumes sh: "has_shape labels r c" "0 < r"
  shows "has_shape (compute_modified_confusion_matrix labels outputs) c c
     \<and> (\<forall>j<c. \<forall>k<c. compute_modified_confusion_matrix labels outputs ! j ! k
          = sum_list (map (\<lambda>i. if labels ! i ! j \<noteq> 0 \<and> outputs ! i ! k \<noteq> 0
                 then 1 / of_nat (max (length (filter (\<lambda>c. labels ! i ! c \<noteq> 0 \<or> outputs ! i ! c \<noteq> 0) [0..<c])) 1)
                 else 0) [0..<r]))"
  using modified_rows_entry [OF zeros2_shape, of c labels outputs "[0..<r]"]
  by (simp add: compute_modified_confusion_matrix_def np_shape_has_shape [OF sh] zeros2_entry)

lemma modified_confusion_term_binary:
  assumes sh: "has_shape labels r c" "has_shape outputs r c"
    and bin: "binary_entries labels" "binary_entries outputs"
    and i: "i < r" and j: "j < c" and k: "k < c"
  shows "(if labels ! i ! j \<noteq> 0 \<and> outputs ! i ! k \<noteq> 0
          then 1 / of_nat (max (length (filter (\<lambda>c. labels ! i ! c \<noteq> 0 \<or> outputs ! i ! c \<noteq> 0) [0..<c])) 1)
          else (0::rat))
       = (if labels ! i ! j = 1 \<and> outputs ! i ! k = 1
          then 1 / of_nat (max (union_size (labels ! i) (outputs ! i)) 1) else 0)"
proof -
  have bl: "\<forall>j<c. labels ! i ! j = 0 \<or> labels ! i ! j = 1"
    and bo: "\<forall>j<c. outputs ! i ! j = 0 \<or> outputs ! i ! j = 1"
    using bin binary_entries_nth [OF sh(1)] binary_entries_nth [OF sh(2)] i by auto
  have f: "filter (\<lambda>c. labels ! i ! c \<noteq> 0 \<or> outputs ! i ! c \<noteq> 0) [0..<c]
         = filter (\<lambda>c. labels ! i ! c = 1 \<or> outputs ! i ! c = 1) [0..<c]"
    by (rule filter_cong) (use bl bo in auto)
  have len: "length (labels ! i) = c" by (rule has_shape_row [OF sh(1) i])
  have n: "length (filter (\<lambda>c. labels ! i ! c \<noteq> 0 \<or> outputs ! i ! c \<noteq> 0) [0..<c])
         = union_size (labels ! i) (outputs ! i)"
    by (simp only: f union_size_def len)
  have c1: "(labels ! i ! j \<noteq> 0 \<and> outputs ! i ! k \<noteq> 0)
         \<longleftrightarrow> (labels ! i ! j = 1 \<and> outputs ! i ! k = 1)"
    using bl bo j k by auto
  show ?thesis
    by (simp only: n c1)
qed

lemma modified_confusion_matrix_binary:
  assumes sh: "has_shape labels r c" "has_shape outputs r c" "0 < r"
    and bin: "binary_entries labels" "binary_entries outputs"
    and j: "j < c" and k: "k < c"
  shows "compute_modified_confusion_matrix labels outputs ! j ! k
       = modified_confusion_entry labels outputs j k"
proof -
  have "compute_modified_confusion_matrix labels outputs ! j ! k
      = sum_list (map (\<lambda>i. if labels ! i ! j \<noteq> 0 \<and> outputs ! i ! k \<noteq> 0
                 then 1 / of_nat (max (length (filter (\<lambda>c. labels ! i ! c \<noteq> 0 \<or> outputs ! i ! c \<noteq> 0) [0..<c])) 1)
                 else 0) [0..<r])"
    using modified_confusion_matrix_truthy [OF sh(1,3), of outputs] j k by blast
  also have "\<dots> = sum_list (map (\<lambda>i. if labels ! i ! j = 1 \<and> outputs ! i ! k = 1
          then 1 / of_nat (max (union_size (labels ! i) (outputs ! i)) 1) else 0) [0..<r])"
    by (rule arg_cong [where f = sum_list], rule map_cong [OF refl])
       (simp add: modified_confusion_term_binary [OF sh(1,2) bin _ j k])
  finally show ?thesis
    by (simp add: modified_confusion_entry_def has_shape_length [OF sh(1)])
qed

lemma modified_confusion_not_symmetric:
  "compute_modified_confusion_matrix [[1, 0]] [[0, 1]] = [[0, 1 / 2], [0, 0]]"
  by code_simp

text \<open>
  Claim C3. For labels and predictions of shape \<open>(r, c)\<close> with entries in \<open>{0, 1}\<close>, the
  matrix computed by \<open>compute_modified_confusion_matrix\<close> has shape \<open>(c, c)\<close>, and its entry
  in row \<open>j\<close> (the true class) and column \<open>k\<close> (the predicted class) is the sum over the
  recordings \<open>i\<close> with label \<open>j\<close> and prediction \<open>k\<close> of \<open>1 / norm i\<close>, where \<open>norm i\<close> is the
  larger of one and the number of classes positive in the labels or the predictions of
  recording \<open>i\<close>. The matrix need not be symmetric: one recording with true class 0 and
  predicted class 1 gives \<open>[[0, 1/2], [0, 0]]\<close>.
\<close>

theorem modified_confusion_matrix_entries:
  assumes "has_shape labels r c" "has_shape outputs r c" "0 < r"
    and "binary_entries labels" "binary_entries outputs"
  shows "has_shape (compute_modified_confusion_matrix labels outputs) c c
       \<and> (\<forall>j<c. \<forall>k<c. compute_modified_confusion_matrix labels outputs ! j ! k
              = modified_confusion_entry labels outputs j k)
       \<and> compute_modified_confusion_matrix [[1, 0]] [[0, 1]] = [[0, 1 / 2], [0, 0]]"
  using modified_confusion_matrix_truthy [OF assms(1,3), of outputs]
    modified_confusion_matrix_binary [OF assms] modified_confusion_not_symmetric
  by simp

lemma shape_witness_multi_labels: "has_shape [[1, 1, 0], [0, 0, 1 :: int]] 2 3"
  by (simp add: has_shape_def)

lemma shape_witness_multi_outputs: "has_shape [[0, 1, 1], [0, 0, 1 :: int]] 2 3"
  by (simp add: has_shape_def)

theorem modified_confusion_matrix_entries_witness:
  "has_shape [[1, 1, 0], [0, 0, 1 :: int]] 2 3 \<and> has_shape [[0, 1, 1], [0, 0, 1 :: int]] 2 3
   \<and> (0::nat) < 2
   \<and> binary_entries [[1, 1, 0], [0, 0, 1]] \<and> binary_entries [[0, 1, 1], [0, 0, 1]]
   \<and> modified_confusion_entry [[1, 1, 0], [0, 0, 1]] [[0, 1, 1], [0, 0, 1]] 0 2 = 1 / 3
   \<and> modified_confusion_entry [[1, 1, 0], [0, 0, 1]] [[0, 1, 1], [0, 0, 1]] 2 2 = 1
   \<and> compute_modified_confusion_matrix [[1, 1, 0], [0, 0, 1]] [[0, 1, 1], [0, 0, 1]] ! 0 ! 2 = 1 / 3
   \<and> compute_modified_confusion_matrix [[1, 1, 0], [0, 0, 1]] [[0, 1, 1], [0, 0, 1]] ! 2 ! 2 = 1"
proof -
  have p: "(0::nat) < 2" by simp
  have b: "binary_entries [[1, 1, 0], [0, 0, 1]]" "binary_entries [[0, 1, 1], [0, 0, 1]]"
    by (simp_all add: binary_entries_def)
  have e: "modified_confusion_entry [[1, 1, 0], [0, 0, 1]] [[0, 1, 1], [0, 0, 1]] 0 2 = 1 / 3"
    "modified_confusion_entry [[1, 1, 0], [0, 0, 1]] [[0, 1, 1], [0, 0, 1]] 2 2 = 1"
    by code_simp+
  show ?thesis
    using shape_witness_multi_labels shape_witness_multi_outputs p b e
      modified_confusion_matrix_entries [OF shape_witness_multi_labels shape_witness_multi_outputs p b]
    by simp
qed

subsection \<open>The inner loop of the sweep\<close>

lemma pos_upto_Suc:
  "c < length idx \<Longrightarrow> pos_upto l idx (Suc c) = pos_upto l idx c + (if l ! (idx ! c) \<noteq> 0 then 1 else 0)"
  by (simp add: pos_upto_def take_Suc_conv_app_nth)

lemma neg_upto_Suc:
  "c < length idx \<Longrightarrow> neg_upto l idx (Suc c) = neg_upto l idx c + (if l ! (idx ! c) = 0 then 1 else 0)"
  by (simp add: neg_upto_def take_Suc_conv_app_nth)

lemma absorb_effect:
  assumes "j < length (sw_tp s)" "j < length (sw_fp s)" "j < length (sw_fn s)"
    "j < length (sw_tn s)" "sw_i s \<le> n" "length idx = n"
  shows "\<exists>c'. sw_i s \<le> c' \<and> c' \<le> n
        \<and> (\<forall>p. sw_i s \<le> p \<and> p < c' \<longrightarrow> t \<le> out ! (idx ! p))
        \<and> (c' < n \<longrightarrow> out ! (idx ! c') < t)
        \<and> absorb l out idx n t j s
          = s\<lparr>sw_tp := (sw_tp s)[j := sw_tp s ! j + (pos_upto l idx c' - pos_upto l idx (sw_i s))],
              sw_fp := (sw_fp s)[j := sw_fp s ! j + (neg_upto l idx c' - neg_upto l idx (sw_i s))],
              sw_fn := (sw_fn s)[j := sw_fn s ! j - (pos_upto l idx c' - pos_upto l idx (sw_i s))],
              sw_tn := (sw_tn s)[j := sw_tn s ! j - (neg_upto l idx c' - neg_upto l idx (sw_i s))],
              sw_i := c'\<rparr>"
  using assms
proof (induction l out idx n t j s rule: absorb.induct)
  case (1 l out idx n t j s)
  show ?case
  proof (cases "sw_i s < n \<and> out ! (idx ! sw_i s) \<ge> t")
    case False
    have "absorb l out idx n t j s = s"
      by (subst absorb.simps) (simp only: False if_False simp_thms)
    then show ?thesis
      using False "1.prems"(5)
      by (intro exI [of _ "sw_i s"]) (auto simp: not_le)
  next
    case True
    define s1 where "s1 = (if l ! (idx ! sw_i s) \<noteq> 0
           then s\<lparr>sw_tp := (sw_tp s)[j := sw_tp s ! j + 1],
                  sw_fn := (sw_fn s)[j := sw_fn s ! j - 1],
                  sw_i := sw_i s + 1\<rparr>
           else s\<lparr>sw_fp := (sw_fp s)[j := sw_fp s ! j + 1],
                  sw_tn := (sw_tn s)[j := sw_tn s ! j - 1],
                  sw_i := sw_i s + 1\<rparr>)"
    have unf: "absorb l out idx n t j s = absorb l out idx n t j s1"
      by (subst absorb.simps) (simp only: True if_True s1_def simp_thms)
    have len1: "j < length (sw_tp s1)" "j < length (sw_fp s1)" "j < length (sw_fn s1)"
      "j < length (sw_tn s1)" "sw_i s1 \<le> n" "sw_i s1 = Suc (sw_i s)"
      using "1.prems" True by (auto simp: s1_def)
    from "1.IH" [OF True, folded s1_def, OF len1(1-5) "1.prems"(6)]
    obtain c' where c': "sw_i s1 \<le> c'" "c' \<le> n"
      "\<forall>p. sw_i s1 \<le> p \<and> p < c' \<longrightarrow> t \<le> out ! (idx ! p)"
      "c' < n \<longrightarrow> out ! (idx ! c') < t"
      "absorb l out idx n t j s1
          = s1\<lparr>sw_tp := (sw_tp s1)[j := sw_tp s1 ! j + (pos_upto l idx c' - pos_upto l idx (sw_i s1))],
              sw_fp := (sw_fp s1)[j := sw_fp s1 ! j + (neg_upto l idx c' - neg_upto l idx (sw_i s1))],
              sw_fn := (sw_fn s1)[j := sw_fn s1 ! j - (pos_upto l idx c' - pos_upto l idx (sw_i s1))],
              sw_tn := (sw_tn s1)[j := sw_tn s1 ! j - (neg_upto l idx c' - neg_upto l idx (sw_i s1))],
              sw_i := c'\<rparr>"
      by blast
    have ci: "sw_i s < length idx" using True "1.prems"(6) by simp
    have range: "\<forall>p. sw_i s \<le> p \<and> p < c' \<longrightarrow> t \<le> out ! (idx ! p)"
    proof (intro allI impI)
      fix p assume p: "sw_i s \<le> p \<and> p < c'"
      show "t \<le> out ! (idx ! p)"
      proof (cases "p = sw_i s")
        case True
        then show ?thesis using \<open>sw_i s < n \<and> out ! (idx ! sw_i s) \<ge> t\<close> by simp
      next
        case False
        then show ?thesis using p c'(3) len1(6) by simp
      qed
    qed
    have eq: "absorb l out idx n t j s1
          = s\<lparr>sw_tp := (sw_tp s)[j := sw_tp s ! j + (pos_upto l idx c' - pos_upto l idx (sw_i s))],
              sw_fp := (sw_fp s)[j := sw_fp s ! j + (neg_upto l idx c' - neg_upto l idx (sw_i s))],
              sw_fn := (sw_fn s)[j := sw_fn s ! j - (pos_upto l idx c' - pos_upto l idx (sw_i s))],
              sw_tn := (sw_tn s)[j := sw_tn s ! j - (neg_upto l idx c' - neg_upto l idx (sw_i s))],
              sw_i := c'\<rparr>"
      unfolding c'(5) len1(6) pos_upto_Suc [OF ci] neg_upto_Suc [OF ci]
      using "1.prems"(1-4)
      by (cases "l ! (idx ! sw_i s) = 0") (simp_all add: s1_def algebra_simps)
    show ?thesis
      using c'(1,2,4) len1(6) range eq unf
      by (intro exI [of _ c']) simp
  qed
qed

subsection \<open>The outer loop of the sweep\<close>

lemma filter_ge_prefix:
  assumes "sorted_wrt (\<lambda>a b. out ! a \<ge> out ! b) idx"
  shows "filter (\<lambda>i. (t::rat) \<le> out ! i) idx = take (cnt_ge out idx t) idx"
  using assms
proof (induction idx)
  case Nil
  then show ?case by (simp add: cnt_ge_def)
next
  case (Cons x xs)
  show ?case
  proof (cases "t \<le> out ! x")
    case True
    then show ?thesis using Cons by (simp add: cnt_ge_def)
  next
    case False
    then have "\<forall>y\<in>set xs. \<not> t \<le> out ! y" using Cons.prems by auto
    then have "filter (\<lambda>i. t \<le> out ! i) xs = []" by (simp add: filter_empty_conv)
    then show ?thesis using False by (simp add: cnt_ge_def)
  qed
qed

lemma cnt_ge_le: "cnt_ge out idx t \<le> length idx"
  by (simp add: cnt_ge_def)

lemma prefix_is_filter:
  assumes srt: "sorted_wrt (\<lambda>a b. out ! a \<ge> out ! b) idx" and c: "c \<le> length idx"
    and below: "\<forall>p<c. (t::rat) \<le> out ! (idx ! p)"
    and stop: "c < length idx \<longrightarrow> out ! (idx ! c) < t"
  shows "cnt_ge out idx t = c"
proof -
  have a: "filter (\<lambda>i. t \<le> out ! i) (take c idx) = take c idx"
    using below c by (auto simp: filter_id_conv in_set_conv_nth)
  have "\<not> t \<le> out ! y" if "y \<in> set (drop c idx)" for y
  proof -
    from that obtain q where q: "q < length idx - c" "y = idx ! (c + q)"
      by (auto simp: in_set_conv_nth)
    have "out ! (idx ! (c + q)) \<le> out ! (idx ! c)"
    proof (cases "q = 0")
      case True then show ?thesis by simp
    next
      case False
      then show ?thesis
        using srt q(1) by (auto simp: sorted_wrt_iff_nth_less)
    qed
    moreover have "out ! (idx ! c) < t" using stop q(1) by simp
    ultimately show ?thesis using q(2) by simp
  qed
  then have b: "filter (\<lambda>i. t \<le> out ! i) (drop c idx) = []"
    by (simp add: filter_empty_conv)
  have "filter (\<lambda>i. t \<le> out ! i) idx
      = filter (\<lambda>i. t \<le> out ! i) (take c idx) @ filter (\<lambda>i. t \<le> out ! i) (drop c idx)"
    by (simp only: filter_append [symmetric] append_take_drop_id)
  then show ?thesis using a b c by (simp add: cnt_ge_def)
qed

lemma below_cnt_ge:
  assumes "sorted_wrt (\<lambda>a b. out ! a \<ge> out ! b) idx" "p < cnt_ge out idx t"
  shows "(t::rat) \<le> out ! (idx ! p)"
proof -
  have "idx ! p = take (cnt_ge out idx t) idx ! p" using assms(2) by simp
  also have "\<dots> = filter (\<lambda>i. t \<le> out ! i) idx ! p"
    by (simp only: filter_ge_prefix [OF assms(1)])
  finally have "idx ! p \<in> set (filter (\<lambda>i. t \<le> out ! i) idx)"
    using assms(2) by (simp add: cnt_ge_def del: set_filter)
  then show ?thesis by simp
qed

lemma sweep_step_inv:
  assumes srt: "sorted_wrt (\<lambda>a b. out ! a \<ge> out ! b) idx" and len: "length idx = n"
    and m: "0 < m" "m < length thr" and desc: "thr ! m < thr ! (m - 1)"
    and inv: "sweep_inv l out idx thr m s"
  shows "sweep_inv l out idx thr (Suc m) (sweep_step l out idx n thr m s)"
proof -
  define s0 where "s0 = s\<lparr>sw_tp := (sw_tp s)[m := sw_tp s ! (m - 1)],
          sw_fp := (sw_fp s)[m := sw_fp s ! (m - 1)],
          sw_fn := (sw_fn s)[m := sw_fn s ! (m - 1)],
          sw_tn := (sw_tn s)[m := sw_tn s ! (m - 1)]\<rparr>"
  let ?t = "thr ! m"
  let ?c = "cnt_ge out idx (thr ! (m - 1))"
  have lens: "length (sw_tp s) = length thr" "length (sw_fp s) = length thr"
    "length (sw_fn s) = length thr" "length (sw_tn s) = length thr"
    and cur: "sw_i s = ?c"
    and ent: "\<And>j. j < m \<Longrightarrow> sw_tp s ! j = pos_upto l idx (cnt_ge out idx (thr ! j))
               \<and> sw_fp s ! j = neg_upto l idx (cnt_ge out idx (thr ! j))
               \<and> sw_fn s ! j = int (length (filter (\<lambda>x. x = 1) l))
                                 - pos_upto l idx (cnt_ge out idx (thr ! j))
               \<and> sw_tn s ! j = int (length (filter (\<lambda>x. x = 0) l))
                                 - neg_upto l idx (cnt_ge out idx (thr ! j))"
    using inv by (simp_all add: sweep_inv_def)
  have l0: "m < length (sw_tp s0)" "m < length (sw_fp s0)" "m < length (sw_fn s0)"
    "m < length (sw_tn s0)" "sw_i s0 \<le> n" "sw_i s0 = ?c"
    using lens m(2) cur cnt_ge_le [of out idx] len by (auto simp: s0_def)
  from absorb_effect [OF l0(1-5) len, where l = l and out = out and t = "?t"]
  obtain c' where c': "sw_i s0 \<le> c'" "c' \<le> n"
    "\<forall>p. sw_i s0 \<le> p \<and> p < c' \<longrightarrow> ?t \<le> out ! (idx ! p)"
    "c' < n \<longrightarrow> out ! (idx ! c') < ?t"
    "absorb l out idx n ?t m s0
          = s0\<lparr>sw_tp := (sw_tp s0)[m := sw_tp s0 ! m + (pos_upto l idx c' - pos_upto l idx (sw_i s0))],
              sw_fp := (sw_fp s0)[m := sw_fp s0 ! m + (neg_upto l idx c' - neg_upto l idx (sw_i s0))],
              sw_fn := (sw_fn s0)[m := sw_fn s0 ! m - (pos_upto l idx c' - pos_upto l idx (sw_i s0))],
              sw_tn := (sw_tn s0)[m := sw_tn s0 ! m - (neg_upto l idx c' - neg_upto l idx (sw_i s0))],
              sw_i := c'\<rparr>"
    by blast
  have below: "\<forall>p<c'. ?t \<le> out ! (idx ! p)"
  proof (intro allI impI)
    fix p assume p: "p < c'"
    show "?t \<le> out ! (idx ! p)"
    proof (cases "p < ?c")
      case True
      from below_cnt_ge [OF srt True] desc show ?thesis by simp
    next
      case False
      then show ?thesis using c'(3) p l0(6) by simp
    qed
  qed
  have cnt: "cnt_ge out idx ?t = c'"
    by (rule prefix_is_filter [OF srt _ below]) (use c'(2,4) len in auto)
  have step: "sweep_step l out idx n thr m s = absorb l out idx n ?t m s0"
    by (simp add: sweep_step_def s0_def)
  have prev: "sw_tp s ! (m - 1) = pos_upto l idx ?c" "sw_fp s ! (m - 1) = neg_upto l idx ?c"
    "sw_fn s ! (m - 1) = int (length (filter (\<lambda>x. x = 1) l)) - pos_upto l idx ?c"
    "sw_tn s ! (m - 1) = int (length (filter (\<lambda>x. x = 0) l)) - neg_upto l idx ?c"
    using ent [of "m - 1"] m(1) by simp_all
  show ?thesis
    unfolding sweep_inv_def step c'(5)
    using lens m(2) prev ent l0(6)
    by (auto simp: s0_def cnt nth_list_update less_Suc_eq)
qed

lemma sweep_init_inv:
  assumes "thr \<noteq> []" "\<forall>i\<in>set idx. out ! i < thr ! 0"
  shows "sweep_inv l out idx thr 1 (sweep_init l (length thr))"
proof -
  have "filter (\<lambda>i. thr ! 0 \<le> out ! i) idx = []"
    using assms(2) by (auto simp: filter_empty_conv)
  then have c0: "cnt_ge out idx (thr ! 0) = 0" by (simp add: cnt_ge_def)
  show ?thesis
    using assms(1)
    by (simp add: sweep_inv_def sweep_init_def zeros1_def c0 pos_upto_def neg_upto_def)
qed

lemma sweep_upto_Suc:
  "0 < m \<Longrightarrow> sweep_upto l out idx n thr (Suc m)
     = sweep_step l out idx n thr m (sweep_upto l out idx n thr m)"
  by (simp add: sweep_upto_def)

lemma sweep_upto_inv:
  assumes srt: "sorted_wrt (\<lambda>a b. out ! a \<ge> out ! b) idx" and len: "length idx = n"
    and thr: "thr \<noteq> []" "sorted_wrt (\<lambda>a b. a > b) thr" "\<forall>i\<in>set idx. out ! i < thr ! 0"
    and m: "0 < m" "m \<le> length thr"
  shows "sweep_inv l out idx thr m (sweep_upto l out idx n thr m)"
  using m
proof (induction m)
  case 0
  then show ?case by simp
next
  case (Suc m)
  show ?case
  proof (cases "m = 0")
    case True
    then show ?thesis
      using sweep_init_inv [OF thr(1,3), of l] by (simp add: sweep_upto_def)
  next
    case False
    then have m: "0 < m" "m < length thr" using Suc.prems by simp_all
    have desc: "thr ! m < thr ! (m - 1)"
      using thr(2) m by (simp add: sorted_wrt_iff_nth_less)
    from Suc.IH m have "sweep_inv l out idx thr m (sweep_upto l out idx n thr m)" by simp
    from sweep_step_inv [OF srt len m desc this]
    show ?thesis by (simp add: sweep_upto_Suc [OF m(1)])
  qed
qed

lemma length_filter_mset:
  "mset xs = mset ys \<Longrightarrow> length (filter P xs) = length (filter P ys)"
proof -
  assume "mset xs = mset ys"
  then have "size (filter_mset P (mset xs)) = size (filter_mset P (mset ys))" by simp
  then show ?thesis by (simp only: mset_filter [symmetric] size_mset)
qed

lemma pos_upto_cnt_ge:
  assumes "sorts_descending idx out"
  shows "pos_upto l idx (cnt_ge out idx t)
       = int (length (filter (\<lambda>i. t \<le> out ! i \<and> l ! i \<noteq> 0) [0..<length out]))"
proof -
  have srt: "sorted_wrt (\<lambda>a b. out ! a \<ge> out ! b) idx" and ms: "mset idx = mset [0..<length out]"
    using assms by (simp_all add: sorts_descending_def)
  have "pos_upto l idx (cnt_ge out idx t)
      = int (length (filter (\<lambda>i. l ! i \<noteq> 0) (filter (\<lambda>i. t \<le> out ! i) idx)))"
    by (simp only: pos_upto_def filter_ge_prefix [OF srt])
  also have "\<dots> = int (length (filter (\<lambda>i. t \<le> out ! i \<and> l ! i \<noteq> 0) idx))"
    by (simp add: conj_commute)
  finally show ?thesis by (simp only: length_filter_mset [OF ms])
qed

lemma neg_upto_cnt_ge:
  assumes "sorts_descending idx out"
  shows "neg_upto l idx (cnt_ge out idx t)
       = int (length (filter (\<lambda>i. t \<le> out ! i \<and> l ! i = 0) [0..<length out]))"
proof -
  have srt: "sorted_wrt (\<lambda>a b. out ! a \<ge> out ! b) idx" and ms: "mset idx = mset [0..<length out]"
    using assms by (simp_all add: sorts_descending_def)
  have "neg_upto l idx (cnt_ge out idx t)
      = int (length (filter (\<lambda>i. l ! i = 0) (filter (\<lambda>i. t \<le> out ! i) idx)))"
    by (simp only: neg_upto_def filter_ge_prefix [OF srt])
  also have "\<dots> = int (length (filter (\<lambda>i. t \<le> out ! i \<and> l ! i = 0) idx))"
    by (simp add: conj_commute)
  finally show ?thesis by (simp only: length_filter_mset [OF ms])
qed

lemma cnt_ge_records:
  assumes "sorts_descending idx out"
  shows "cnt_ge out idx t = length (filter (\<lambda>i. t \<le> out ! i) [0..<length out])"
  using assms by (simp add: cnt_ge_def sorts_descending_def length_filter_mset)

subsection \<open>Thresholds and the sorting index\<close>

lemma np_unique_sorted_list: "np_unique out = sorted_list_of_set (set out)"
  by (simp add: np_unique_def sorted_list_of_set_sort_remdups)

lemma last_sorted_list_of_set:
  assumes "finite A" "A \<noteq> {}"
  shows "last (sorted_list_of_set A) = Max (A :: rat set)"
proof -
  let ?xs = "sorted_list_of_set A"
  have ne: "?xs \<noteq> []" using assms by simp
  have "last ?xs \<in> A" using last_in_set [OF ne] assms(1) by simp
  moreover have "\<forall>a\<in>A. a \<le> last ?xs"
  proof
    fix a assume "a \<in> A"
    then have "a \<in> set ?xs" using assms(1) by simp
    then obtain i where i: "i < length ?xs" "?xs ! i = a" by (auto simp: in_set_conv_nth)
    have "?xs ! i \<le> ?xs ! (length ?xs - 1)"
      by (rule sorted_nth_mono) (use i ne in auto)
    then show "a \<le> last ?xs" using i(2) ne by (simp add: last_conv_nth)
  qed
  ultimately show ?thesis using assms(1) by (intro Max_eqI [symmetric]) auto
qed

lemma make_thresholds_spec:
  assumes "out \<noteq> []"
  shows "make_thresholds out = Inr (thresholds_spec out)"
proof -
  have ne: "sorted_list_of_set (set out) \<noteq> []" using assms by simp
  have "last (sorted_list_of_set (set out)) = Max (set out)"
    by (rule last_sorted_list_of_set) (use assms in auto)
  then show ?thesis
    using ne by (simp add: make_thresholds_def np_unique_sorted_list thresholds_spec_def Let_def)
qed

lemma make_thresholds_empty: "make_thresholds [] = Inl IndexError"
  by (simp add: make_thresholds_def np_unique_def)

lemma thresholds_spec_props:
  assumes "out \<noteq> []"
  shows "thresholds_spec out \<noteq> []"
    and "sorted_wrt (\<lambda>a b. a > b) (thresholds_spec out)"
    and "\<forall>x\<in>set out. x < thresholds_spec out ! 0"
    and "set (tl (thresholds_spec out)) = set out"
proof -
  have fin: "finite (set out)" "set out \<noteq> {}" using assms by auto
  show "thresholds_spec out \<noteq> []" by (simp add: thresholds_spec_def)
  have "sorted_wrt (<) (sorted_list_of_set (set out))"
    by (simp add: strict_sorted_iff)
  then have "sorted_wrt (\<lambda>a b. a > b) (rev (sorted_list_of_set (set out)))"
    by (simp add: sorted_wrt_rev)
  moreover have "\<forall>x\<in>set out. x < Max (set out) + 1"
    using Max_ge [OF fin(1)] by (auto intro: le_less_trans [where y = "Max (set out)"])
  ultimately show "sorted_wrt (\<lambda>a b. a > b) (thresholds_spec out)"
    by (simp add: thresholds_spec_def)
  show "\<forall>x\<in>set out. x < thresholds_spec out ! 0"
    using \<open>\<forall>x\<in>set out. x < Max (set out) + 1\<close> by (simp add: thresholds_spec_def)
  show "set (tl (thresholds_spec out)) = set out"
    by (simp add: thresholds_spec_def)
qed

lemma argsort_sorts_descending: "sorts_descending (rev (np_argsort out)) out"
proof -
  have "sorted (map (\<lambda>i. out ! i) (np_argsort out))"
    by (simp add: np_argsort_def)
  then have "sorted_wrt (\<lambda>a b. out ! a \<le> out ! b) (np_argsort out)"
    by (simp add: sorted_map)
  then have "sorted_wrt (\<lambda>a b. out ! a \<ge> out ! b) (rev (np_argsort out))"
    by (simp add: sorted_wrt_rev)
  moreover have "mset (rev (np_argsort out)) = mset [0..<length out]"
    by (simp add: np_argsort_def)
  ultimately show ?thesis by (simp add: sorts_descending_def)
qed

subsection \<open>The arrays of the sweep in closed form\<close>

lemma sorts_descending_props:
  assumes "sorts_descending idx out"
  shows "length idx = length out" and "set idx = {0..<length out}"
    and "sorted_wrt (\<lambda>a b. out ! a \<ge> out ! b) idx"
proof -
  have ms: "mset idx = mset [0..<length out]" using assms by (simp add: sorts_descending_def)
  show "length idx = length out" using mset_eq_length [OF ms] by simp
  show "set idx = {0..<length out}" using mset_eq_setD [OF ms] by simp
  show "sorted_wrt (\<lambda>a b. out ! a \<ge> out ! b) idx"
    using assms by (simp add: sorts_descending_def)
qed

lemma sweep_arrays_truthy:
  assumes idx: "sorts_descending idx out" and ne: "out \<noteq> []"
    and m: "0 < m" "m \<le> length (thresholds_spec out)" and j: "j < m"
  shows "sw_tp (sweep_upto l out idx (length out) (thresholds_spec out) m) ! j
           = int (length (filter (\<lambda>i. thresholds_spec out ! j \<le> out ! i \<and> l ! i \<noteq> 0) [0..<length out]))"
    and "sw_fp (sweep_upto l out idx (length out) (thresholds_spec out) m) ! j
           = int (length (filter (\<lambda>i. thresholds_spec out ! j \<le> out ! i \<and> l ! i = 0) [0..<length out]))"
    and "sw_fn (sweep_upto l out idx (length out) (thresholds_spec out) m) ! j
           = int (length (filter (\<lambda>x. x = 1) l))
             - int (length (filter (\<lambda>i. thresholds_spec out ! j \<le> out ! i \<and> l ! i \<noteq> 0) [0..<length out]))"
    and "sw_tn (sweep_upto l out idx (length out) (thresholds_spec out) m) ! j
           = int (length (filter (\<lambda>x. x = 0) l))
             - int (length (filter (\<lambda>i. thresholds_spec out ! j \<le> out ! i \<and> l ! i = 0) [0..<length out]))"
    and "sw_i (sweep_upto l out idx (length out) (thresholds_spec out) m)
           = length (filter (\<lambda>i. thresholds_spec out ! (m - 1) \<le> out ! i) [0..<length out])"
    and "length (sw_tp (sweep_upto l out idx (length out) (thresholds_spec out) m))
           = length (thresholds_spec out)"
    and "length (sw_fp (sweep_upto l out idx (length out) (thresholds_spec out) m))
           = length (thresholds_spec out)"
    and "length (sw_fn (sweep_upto l out idx (length out) (thresholds_spec out) m))
           = length (thresholds_spec out)"
    and "length (sw_tn (sweep_upto l out idx (length out) (thresholds_spec out) m))
           = length (thresholds_spec out)"
proof -
  note p = sorts_descending_props [OF idx]
  have top: "\<forall>i\<in>set idx. out ! i < thresholds_spec out ! 0"
    using thresholds_spec_props(3) [OF ne] p(2) by simp
  have inv: "sweep_inv l out idx (thresholds_spec out) m
               (sweep_upto l out idx (length out) (thresholds_spec out) m)"
    by (rule sweep_upto_inv [OF p(3) p(1) thresholds_spec_props(1,2) [OF ne] top m])
  note c = pos_upto_cnt_ge [OF idx] neg_upto_cnt_ge [OF idx] cnt_ge_records [OF idx]
  show "sw_tp (sweep_upto l out idx (length out) (thresholds_spec out) m) ! j
           = int (length (filter (\<lambda>i. thresholds_spec out ! j \<le> out ! i \<and> l ! i \<noteq> 0) [0..<length out]))"
    using inv j by (simp add: sweep_inv_def c(1))
  show "sw_fp (sweep_upto l out idx (length out) (thresholds_spec out) m) ! j
           = int (length (filter (\<lambda>i. thresholds_spec out ! j \<le> out ! i \<and> l ! i = 0) [0..<length out]))"
    using inv j by (simp add: sweep_inv_def c(2))
  show "sw_fn (sweep_upto l out idx (length out) (thresholds_spec out) m) ! j
           = int (length (filter (\<lambda>x. x = 1) l))
             - int (length (filter (\<lambda>i. thresholds_spec out ! j \<le> out ! i \<and> l ! i \<noteq> 0) [0..<length out]))"
    using inv j by (simp add: sweep_inv_def c(1))
  show "sw_tn (sweep_upto l out idx (length out) (thresholds_spec out) m) ! j
           = int (length (filter (\<lambda>x. x = 0) l))
             - int (length (filter (\<lambda>i. thresholds_spec out ! j \<le> out ! i \<and> l ! i = 0) [0..<length out]))"
    using inv j by (simp add: sweep_inv_def c(2))
  show "sw_i (sweep_upto l out idx (length out) (thresholds_spec out) m)
           = length (filter (\<lambda>i. thresholds_spec out ! (m - 1) \<le> out ! i) [0..<length out])"
    using inv by (simp add: sweep_inv_def c(3))
  show "length (sw_tp (sweep_upto l out idx (length out) (thresholds_spec out) m))
           = length (thresholds_spec out)"
    "length (sw_fp (sweep_upto l out idx (length out) (thresholds_spec out) m))
           = length (thresholds_spec out)"
    "length (sw_fn (sweep_upto l out idx (length out) (thresholds_spec out) m))
           = length (thresholds_spec out)"
    "length (sw_tn (sweep_upto l out idx (length out) (thresholds_spec out) m))
           = length (thresholds_spec out)"
    using inv by (simp_all add: sweep_inv_def)
qed

lemma length_filter_nth:
  "length (filter P l) = length (filter (\<lambda>i. P (l ! i)) [0..<length l])"
proof -
  have "filter P l = filter P (map (\<lambda>i. l ! i) [0..<length l])" by (simp add: map_nth)
  also have "length \<dots> = length (filter (\<lambda>i. P (l ! i)) [0..<length l])"
    by (simp add: filter_map comp_def)
  finally show ?thesis .
qed

lemma length_filter_split:
  "length (filter P xs) = length (filter (\<lambda>i. Q i \<and> P i) xs) + length (filter (\<lambda>i. \<not> Q i \<and> P i) xs)"
  by (induction xs) auto

lemma binary_counts:
  assumes bin: "list_all (\<lambda>x. x = 0 \<or> x = 1) l" and len: "length l = length out"
  shows "int (length (filter (\<lambda>i. t \<le> out ! i \<and> l ! i \<noteq> 0) [0..<length out])) = tp_at l out t"
    and "int (length (filter (\<lambda>x. x = 1) l)) = tp_at l out t + fn_at l out t"
    and "int (length (filter (\<lambda>x. x = 0) l)) = fp_at l out t + tn_at l out t"
proof -
  have b: "\<forall>i<length out. l ! i = 0 \<or> l ! i = 1"
    using bin len by (simp add: list_all_length)
  have "filter (\<lambda>i. t \<le> out ! i \<and> l ! i \<noteq> 0) [0..<length out]
      = filter (\<lambda>i. t \<le> out ! i \<and> l ! i = 1) [0..<length out]"
    by (rule filter_cong) (use b in auto)
  then show "int (length (filter (\<lambda>i. t \<le> out ! i \<and> l ! i \<noteq> 0) [0..<length out])) = tp_at l out t"
    by (simp add: tp_at_def)
  show "int (length (filter (\<lambda>x. x = 1) l)) = tp_at l out t + fn_at l out t"
    unfolding tp_at_def fn_at_def length_filter_nth [of "\<lambda>x. x = 1" l] len
    using length_filter_split [of "\<lambda>i. l ! i = 1" "[0..<length out]" "\<lambda>i. t \<le> out ! i"]
    by simp
  show "int (length (filter (\<lambda>x. x = 0) l)) = fp_at l out t + tn_at l out t"
    unfolding fp_at_def tn_at_def length_filter_nth [of "\<lambda>x. x = 0" l] len
    using length_filter_split [of "\<lambda>i. l ! i = 0" "[0..<length out]" "\<lambda>i. t \<le> out ! i"]
    by simp
qed

lemma sweep_arrays_binary:
  assumes idx: "sorts_descending idx out" and ne: "out \<noteq> []"
    and bin: "list_all (\<lambda>x. x = 0 \<or> x = 1) l" and len: "length l = length out"
    and m: "0 < m" "m \<le> length (thresholds_spec out)" and j: "j < m"
  shows "sw_tp (sweep_upto l out idx (length out) (thresholds_spec out) m) ! j
           = tp_at l out (thresholds_spec out ! j)"
    and "sw_fp (sweep_upto l out idx (length out) (thresholds_spec out) m) ! j
           = fp_at l out (thresholds_spec out ! j)"
    and "sw_fn (sweep_upto l out idx (length out) (thresholds_spec out) m) ! j
           = fn_at l out (thresholds_spec out ! j)"
    and "sw_tn (sweep_upto l out idx (length out) (thresholds_spec out) m) ! j
           = tn_at l out (thresholds_spec out ! j)"
  using sweep_arrays_truthy(1-4) [OF idx ne m j, of l]
    binary_counts [OF bin len, of "thresholds_spec out ! j"]
  by (simp_all add: fp_at_def)

subsection \<open>The two sums\<close>

lemma flt_add_assoc: "flt_add (flt_add a b) c = flt_add a (flt_add b c)"
  by (cases a; cases b; cases c) simp_all

lemma flt_sum_Nil: "flt_sum [] = Fin 0"
  by (simp add: flt_sum_def)

lemma flt_sum_Cons: "flt_sum (x # xs) = flt_add x (flt_sum xs)"
  by (cases x) (simp_all add: flt_sum_def)

lemma fold_flt_add:
  "fold (\<lambda>j a. flt_add a (f j)) js a = flt_add a (flt_sum (map f js))"
proof (induction js arbitrary: a)
  case Nil
  show ?case by (cases a) (simp_all add: flt_sum_Nil)
next
  case (Cons j js)
  show ?case by (simp add: Cons.IH flt_sum_Cons flt_add_assoc)
qed

lemma fold_flt_add_zero:
  "fold (\<lambda>j a. flt_add a (f j)) js (Fin 0) = flt_sum (map f js)"
  by (cases "flt_sum (map f js)") (simp_all add: fold_flt_add)

lemma auc_of_sweep_closed:
  assumes idx: "sorts_descending idx out" and ne: "out \<noteq> []"
  shows "auc_of_sweep l out idx (length out) (thresholds_spec out) = auc_closed l out"
proof -
  let ?thr = "thresholds_spec out"
  let ?s = "sweep_upto l out idx (length out) ?thr (length ?thr)"
  have pos: "0 < length ?thr" using thresholds_spec_props(1) [OF ne] by simp
  note a = sweep_arrays_truthy(1-4) [OF idx ne pos order_refl, of _ l]
  have tpr: "rate (sw_tp ?s ! j) (sw_tp ?s ! j + sw_fn ?s ! j)
       = (case sweep_counts l out (?thr ! j) of (tp, fp, fn, tn) \<Rightarrow> rate tp (tp + fn))"
    and tnr: "rate (sw_tn ?s ! j) (sw_fp ?s ! j + sw_tn ?s ! j)
       = (case sweep_counts l out (?thr ! j) of (tp, fp, fn, tn) \<Rightarrow> rate tn (fp + tn))"
    and ppv: "rate (sw_tp ?s ! j) (sw_tp ?s ! j + sw_fp ?s ! j)
       = (case sweep_counts l out (?thr ! j) of (tp, fp, fn, tn) \<Rightarrow> rate tp (tp + fp))"
    if "j < length ?thr" for j
    using a [OF that] by (simp_all add: sweep_counts_def Let_def)
  have roc: "map (\<lambda>j. flt_mul (flt_mul (Fin (1 / 2))
                (flt_sub (map (\<lambda>j. rate (sw_tp ?s ! j) (sw_tp ?s ! j + sw_fn ?s ! j)) [0..<length ?thr] ! (j + 1))
                         (map (\<lambda>j. rate (sw_tp ?s ! j) (sw_tp ?s ! j + sw_fn ?s ! j)) [0..<length ?thr] ! j)))
                (flt_add (map (\<lambda>j. rate (sw_tn ?s ! j) (sw_fp ?s ! j + sw_tn ?s ! j)) [0..<length ?thr] ! (j + 1))
                         (map (\<lambda>j. rate (sw_tn ?s ! j) (sw_fp ?s ! j + sw_tn ?s ! j)) [0..<length ?thr] ! j)))
              [0..<length ?thr - 1]
        = map (\<lambda>j. flt_mul (flt_mul (Fin (1 / 2))
                (flt_sub (case sweep_counts l out (?thr ! (j + 1)) of (tp, fp, fn, tn) \<Rightarrow> rate tp (tp + fn))
                         (case sweep_counts l out (?thr ! j) of (tp, fp, fn, tn) \<Rightarrow> rate tp (tp + fn))))
                (flt_add (case sweep_counts l out (?thr ! (j + 1)) of (tp, fp, fn, tn) \<Rightarrow> rate tn (fp + tn))
                         (case sweep_counts l out (?thr ! j) of (tp, fp, fn, tn) \<Rightarrow> rate tn (fp + tn))))
              [0..<length ?thr - 1]"
    by (rule map_cong [OF refl]) (simp add: tpr tnr less_diff_conv)
  have prc: "map (\<lambda>j. flt_mul
                (flt_sub (map (\<lambda>j. rate (sw_tp ?s ! j) (sw_tp ?s ! j + sw_fn ?s ! j)) [0..<length ?thr] ! (j + 1))
                         (map (\<lambda>j. rate (sw_tp ?s ! j) (sw_tp ?s ! j + sw_fn ?s ! j)) [0..<length ?thr] ! j))
                (map (\<lambda>j. rate (sw_tp ?s ! j) (sw_tp ?s ! j + sw_fp ?s ! j)) [0..<length ?thr] ! (j + 1)))
              [0..<length ?thr - 1]
        = map (\<lambda>j. flt_mul
                (flt_sub (case sweep_counts l out (?thr ! (j + 1)) of (tp, fp, fn, tn) \<Rightarrow> rate tp (tp + fn))
                         (case sweep_counts l out (?thr ! j) of (tp, fp, fn, tn) \<Rightarrow> rate tp (tp + fn)))
                (case sweep_counts l out (?thr ! (j + 1)) of (tp, fp, fn, tn) \<Rightarrow> rate tp (tp + fp)))
              [0..<length ?thr - 1]"
    by (rule map_cong [OF refl]) (simp add: tpr ppv less_diff_conv)
  show ?thesis
    unfolding auc_of_sweep_def auc_closed_def Let_def fold_flt_add_zero roc prc ..
qed

lemma sweep_counts_binary:
  assumes "list_all (\<lambda>x. x = 0 \<or> x = 1) l" "length l = length out"
  shows "sweep_counts l out t = (tp_at l out t, fp_at l out t, fn_at l out t, tn_at l out t)"
  using binary_counts [OF assms, of t]
  by (simp add: sweep_counts_def Let_def fp_at_def)

lemma auc_closed_binary:
  assumes "list_all (\<lambda>x. x = 0 \<or> x = 1) l" "length l = length out"
  shows "auc_closed l out = (auroc_spec l out, auprc_spec l out)"
  by (simp add: auc_closed_def auroc_spec_def auprc_spec_def Let_def
      sweep_counts_binary [OF assms] tpr_at_def tnr_at_def ppv_at_def)

subsection \<open>The loop over the classes\<close>

lemma auc_class_closed:
  assumes "out \<noteq> []"
  shows "auc_class l out (length out) = Inr (auc_closed l out)"
  by (simp add: auc_class_def make_thresholds_spec [OF assms]
      auc_of_sweep_closed [OF argsort_sorts_descending assms])

lemma length_column: "length (column m k) = length m"
  by (simp add: column_def)

lemma auc_classes_closed:
  assumes "outputs \<noteq> []"
  shows "auc_classes labels outputs (length outputs) ks
       = Inr (map (\<lambda>k. auc_closed (column labels k) (column outputs k)) ks)"
proof (induction ks)
  case Nil
  show ?case by simp
next
  case (Cons k ks)
  have ne: "column outputs k \<noteq> []" using assms by (simp add: column_def)
  have "auc_class (column labels k) (column outputs k) (length outputs)
      = Inr (auc_closed (column labels k) (column outputs k))"
    using auc_class_closed [OF ne, of "column labels k"] by (simp add: length_column)
  then show ?case by (simp add: Cons.IH)
qed

lemma compute_auc_closed:
  assumes sh: "has_shape labels r c" "has_shape outputs r c" "0 < r"
  shows "compute_auc labels outputs
       = (let auroc = map (\<lambda>k. fst (auc_closed (column labels k) (column outputs k))) [0..<c];
              auprc = map (\<lambda>k. snd (auc_closed (column labels k) (column outputs k))) [0..<c]
          in Inr (if list_ex isfinite auroc then nanmean auroc else NaN,
                  if list_ex isfinite auprc then nanmean auprc else NaN, auroc, auprc))"
proof -
  have ne: "outputs \<noteq> []" and len: "length outputs = r"
    using sh(2,3) by (auto simp: has_shape_def)
  show ?thesis
    using auc_classes_closed [OF ne, of labels "[0..<c]"]
    by (simp add: compute_auc_def np_shape_has_shape [OF sh(1,3)] len Let_def comp_def)
qed

lemma column_binary:
  assumes "has_shape labels r c" "binary_entries labels" "k < c"
  shows "list_all (\<lambda>x. x = 0 \<or> x = 1) (column labels k)"
  using assms binary_entries_nth [OF assms(1)]
  by (auto simp: column_def list_all_length has_shape_def)

lemma nothing_above_first_threshold:
  assumes "out \<noteq> []"
  shows "filter (\<lambda>i. thresholds_spec out ! 0 \<le> out ! i \<and> P i) [0..<length out] = []"
  using thresholds_spec_props(3) [OF assms] by (auto simp: filter_empty_conv not_le)

lemma sweep_first_entries:
  assumes idx: "sorts_descending idx out" and ne: "out \<noteq> []"
    and m: "0 < m" "m \<le> length (thresholds_spec out)"
  shows "sw_tp (sweep_upto l out idx (length out) (thresholds_spec out) m) ! 0 = 0"
    and "sw_fp (sweep_upto l out idx (length out) (thresholds_spec out) m) ! 0 = 0"
    and "sw_fn (sweep_upto l out idx (length out) (thresholds_spec out) m) ! 0
           = int (length (filter (\<lambda>x. x = 1) l))"
    and "sw_tn (sweep_upto l out idx (length out) (thresholds_spec out) m) ! 0
           = int (length (filter (\<lambda>x. x = 0) l))"
  using sweep_arrays_truthy(1-4) [OF idx ne m m(1), of l]
  by (simp_all add: nothing_above_first_threshold [OF ne])

text \<open>
  Claim C2. Let \<open>l\<close> and \<open>out\<close> be the columns of class \<open>k\<close> of the labels (entries in
  \<open>{0, 1}\<close>) and of the scores, for at least one recording. The thresholds computed are
  \<open>thresholds_spec out\<close>: the distinct scores in descending order behind the largest score
  plus one. Let \<open>idx\<close> be any list of the record indices along which the scores do not
  increase, as the reversed \<open>np_argsort\<close> is, whatever the order of records with equal
  scores. In the state \<open>s\<close> at the end of the sweep the entries \<open>0\<close> of the four arrays are
  \<open>TP = FP = 0\<close>, \<open>FN\<close> the number of positive and \<open>TN\<close> the number of negative records; after
  the iteration for threshold \<open>j\<close> the cursor is the number of records with a score of at
  least that threshold, and the entries \<open>j\<close> count these records: the positive ones as
  \<open>TP\<close>, the negative ones as \<open>FP\<close>, the remaining positive and negative records as \<open>FN\<close> and
  \<open>TN\<close>. \<open>compute_auc\<close> returns, and its per-class values for class \<open>k\<close> are the sums
  \<open>auroc_spec\<close> and \<open>auprc_spec\<close> over consecutive thresholds of
  \<open>0.5 * (TPR[j+1] - TPR[j]) * (TNR[j+1] + TNR[j])\<close> and \<open>(TPR[j+1] - TPR[j]) * PPV[j+1]\<close>, with
  each rate NaN when its denominator is zero.
\<close>

theorem auc_threshold_sweep:
  assumes "has_shape labels r c" "has_shape outputs r c" "0 < r" "binary_entries labels" "k < c"
    and "l = column labels k" "out = column outputs k" "thr = thresholds_spec out"
    and "sorts_descending idx out" "s = sweep_upto l out idx r thr (length thr)"
  shows "sorts_descending (rev (np_argsort out)) out
       \<and> make_thresholds out = Inr thr
       \<and> sw_tp s ! 0 = 0 \<and> sw_fp s ! 0 = 0
       \<and> sw_fn s ! 0 = int (length (filter (\<lambda>x. x = 1) l))
       \<and> sw_tn s ! 0 = int (length (filter (\<lambda>x. x = 0) l))
       \<and> (\<forall>j<length thr.
             sw_i (sweep_upto l out idx r thr (Suc j))
               = length (filter (\<lambda>i. thr ! j \<le> out ! i) [0..<r])
             \<and> sw_tp s ! j = tp_at l out (thr ! j) \<and> sw_fp s ! j = fp_at l out (thr ! j)
             \<and> sw_fn s ! j = fn_at l out (thr ! j) \<and> sw_tn s ! j = tn_at l out (thr ! j))
       \<and> (\<exists>macro_auroc macro_auprc auroc auprc.
             compute_auc labels outputs = Inr (macro_auroc, macro_auprc, auroc, auprc)
             \<and> length auroc = c \<and> length auprc = c
             \<and> auroc ! k = auroc_spec l out \<and> auprc ! k = auprc_spec l out)"
proof -
  have len: "length out = r" "length l = length out"
    using assms(1,2,6,7) by (simp_all add: length_column has_shape_def)
  have ne: "out \<noteq> []" using len(1) assms(3) by auto
  have bin: "list_all (\<lambda>x. x = 0 \<or> x = 1) l"
    unfolding assms(6) by (rule column_binary [OF assms(1,4,5)])
  note idx = assms(9)
  have pos: "0 < length thr" using thresholds_spec_props(1) [OF ne] assms(8) by simp
  have thr: "make_thresholds out = Inr thr"
    unfolding assms(8) by (rule make_thresholds_spec [OF ne])
  have first: "sw_tp s ! 0 = 0" "sw_fp s ! 0 = 0"
    "sw_fn s ! 0 = int (length (filter (\<lambda>x. x = 1) l))"
    "sw_tn s ! 0 = int (length (filter (\<lambda>x. x = 0) l))"
    using sweep_first_entries [OF idx ne, of "length thr" l] pos
    by (simp_all add: assms(8,10) len(1))
  have each: "sw_i (sweep_upto l out idx r thr (Suc j))
               = length (filter (\<lambda>i. thr ! j \<le> out ! i) [0..<r])
             \<and> sw_tp s ! j = tp_at l out (thr ! j) \<and> sw_fp s ! j = fp_at l out (thr ! j)
             \<and> sw_fn s ! j = fn_at l out (thr ! j) \<and> sw_tn s ! j = tn_at l out (thr ! j)"
    if j: "j < length thr" for j
  proof -
    have sj: "0 < Suc j" "Suc j \<le> length (thresholds_spec out)" using j assms(8) by simp_all
    have "sw_i (sweep_upto l out idx r thr (Suc j))
               = length (filter (\<lambda>i. thr ! j \<le> out ! i) [0..<r])"
      using sweep_arrays_truthy(5) [OF idx ne sj, of j l] by (simp add: assms(8) len(1))
    moreover have "sw_tp s ! j = tp_at l out (thr ! j)" "sw_fp s ! j = fp_at l out (thr ! j)"
      "sw_fn s ! j = fn_at l out (thr ! j)" "sw_tn s ! j = tn_at l out (thr ! j)"
      using sweep_arrays_binary [OF idx ne bin len(2), of "length thr" j] j pos
      by (simp_all add: assms(8,10) len(1))
    ultimately show ?thesis by simp
  qed
  have res: "\<exists>macro_auroc macro_auprc auroc auprc.
             compute_auc labels outputs = Inr (macro_auroc, macro_auprc, auroc, auprc)
             \<and> length auroc = c \<and> length auprc = c
             \<and> auroc ! k = auroc_spec l out \<and> auprc ! k = auprc_spec l out"
    using assms(5) auc_closed_binary [OF bin len(2)]
    by (simp add: compute_auc_closed [OF assms(1,2,3)] Let_def assms(6,7))
  show ?thesis using argsort_sorts_descending [of out] thr first each res by blast
qed

lemma shape_witness_tie_labels: "has_shape [[1, 0], [0, 1], [1, 1 :: int]] 3 2"
  by (simp add: has_shape_def)

lemma shape_witness_tie_scores:
  "has_shape [[9 / 10, 1 / 10], [3 / 5, 2 / 5], [3 / 5, 1 / 2 :: rat]] 3 2"
  by (simp add: has_shape_def)

theorem auc_threshold_sweep_witness:
  "has_shape [[1, 0], [0, 1], [1, 1 :: int]] 3 2
   \<and> has_shape [[9 / 10, 1 / 10], [3 / 5, 2 / 5], [3 / 5, 1 / 2 :: rat]] 3 2
   \<and> (0::nat) < 3 \<and> binary_entries [[1, 0], [0, 1], [1, 1]] \<and> (0::nat) < 2
   \<and> make_thresholds (column [[9 / 10, 1 / 10], [3 / 5, 2 / 5], [3 / 5, 1 / 2]] 0)
        = Inr [19 / 10, 9 / 10, 3 / 5]
   \<and> (case compute_auc [[1, 0], [0, 1], [1, 1]] [[9 / 10, 1 / 10], [3 / 5, 2 / 5], [3 / 5, 1 / 2]] of
         Inl e \<Rightarrow> False
       | Inr (macro_auroc, macro_auprc, auroc, auprc) \<Rightarrow>
           auroc ! 0 = Fin (3 / 4) \<and> auprc ! 0 = Fin (5 / 6))"
proof -
  let ?L = "[[1, 0], [0, 1], [1, 1 :: int]]"
  let ?S = "[[9 / 10, 1 / 10], [3 / 5, 2 / 5], [3 / 5, 1 / 2 :: rat]]"
  have p: "(0::nat) < 3" "(0::nat) < 2" by simp_all
  have b: "binary_entries ?L" by (simp add: binary_entries_def)
  have t: "thresholds_spec (column ?S 0) = [19 / 10, 9 / 10, 3 / 5]" by code_simp
  have a: "auroc_spec (column ?L 0) (column ?S 0) = Fin (3 / 4)"
    "auprc_spec (column ?L 0) (column ?S 0) = Fin (5 / 6)"
    by code_simp+
  from auc_threshold_sweep [OF shape_witness_tie_labels shape_witness_tie_scores p(1) b p(2)
      refl refl refl argsort_sorts_descending refl]
  have "make_thresholds (column ?S 0) = Inr (thresholds_spec (column ?S 0))"
    and "\<exists>macro_auroc macro_auprc auroc auprc.
             compute_auc ?L ?S = Inr (macro_auroc, macro_auprc, auroc, auprc)
             \<and> length auroc = 2 \<and> length auprc = 2
             \<and> auroc ! 0 = auroc_spec (column ?L 0) (column ?S 0)
             \<and> auprc ! 0 = auprc_spec (column ?L 0) (column ?S 0)"
    by blast+
  then show ?thesis
    using shape_witness_tie_labels shape_witness_tie_scores p b
    unfolding t a by auto
qed

subsection \<open>Invariants of the sweep\<close>

lemma length_filter_mono:
  assumes "\<And>x. x \<in> set xs \<Longrightarrow> P x \<Longrightarrow> Q x"
  shows "length (filter P xs) \<le> length (filter Q xs)"
  using assms by (induction xs) auto

lemma length_filter_partition:
  "length (filter P xs) + length (filter (\<lambda>x. \<not> P x) xs) = length xs"
  by (induction xs) auto

lemma counts_at_sum:
  assumes bin: "list_all (\<lambda>x. x = 0 \<or> x = 1) l" and len: "length l = length out"
  shows "tp_at l out t + fp_at l out t + fn_at l out t + tn_at l out t = int (length out)"
    and "tp_at l out t + fp_at l out t = int (length (filter (\<lambda>i. t \<le> out ! i) [0..<length out]))"
proof -
  have b: "\<forall>i<length out. l ! i = 0 \<or> l ! i = 1"
    using bin len by (simp add: list_all_length)
  have neg: "filter (\<lambda>i. l ! i = 0) [0..<length out] = filter (\<lambda>i. \<not> l ! i = 1) [0..<length out]"
    by (rule filter_cong) (use b in auto)
  have "int (length (filter (\<lambda>x. x = 1) l)) + int (length (filter (\<lambda>x. x = 0) l)) = int (length out)"
    unfolding length_filter_nth [of "\<lambda>x. x = 1" l] length_filter_nth [of "\<lambda>x. x = 0" l] len neg
    using length_filter_partition [of "\<lambda>i. l ! i = 1" "[0..<length out]"] by simp
  then show "tp_at l out t + fp_at l out t + fn_at l out t + tn_at l out t = int (length out)"
    using binary_counts(2,3) [OF bin len, of t] by simp
  have negt: "filter (\<lambda>i. t \<le> out ! i \<and> l ! i = 0) [0..<length out]
            = filter (\<lambda>i. \<not> l ! i = 1 \<and> t \<le> out ! i) [0..<length out]"
    by (rule filter_cong) (use b in auto)
  have post: "filter (\<lambda>i. t \<le> out ! i \<and> l ! i = 1) [0..<length out]
            = filter (\<lambda>i. l ! i = 1 \<and> t \<le> out ! i) [0..<length out]"
    by (rule filter_cong) auto
  show "tp_at l out t + fp_at l out t = int (length (filter (\<lambda>i. t \<le> out ! i) [0..<length out]))"
    unfolding tp_at_def fp_at_def negt post
    using length_filter_split [of "\<lambda>i. t \<le> out ! i" "[0..<length out]" "\<lambda>i. l ! i = 1"]
    by simp
qed

lemma counts_at_mono:
  assumes "t' \<le> t"
  shows "tp_at l out t \<le> tp_at l out t'" and "fp_at l out t \<le> fp_at l out t'"
    and "fn_at l out t' \<le> fn_at l out t" and "tn_at l out t' \<le> tn_at l out t"
  unfolding tp_at_def fp_at_def fn_at_def tn_at_def
  using assms by (auto intro!: length_filter_mono)

lemma last_threshold_below:
  assumes "out \<noteq> []"
  shows "\<forall>x\<in>set out. thresholds_spec out ! (length (thresholds_spec out) - 1) \<le> x"
proof -
  let ?sl = "sorted_list_of_set (set out)"
  have ne: "?sl \<noteq> []" using assms by simp
  have "thresholds_spec out ! (length (thresholds_spec out) - 1) = last (thresholds_spec out)"
    by (simp only: last_conv_nth [OF thresholds_spec_props(1) [OF assms]])
  also have "\<dots> = hd ?sl" using ne by (simp add: thresholds_spec_def last_rev)
  finally have e: "thresholds_spec out ! (length (thresholds_spec out) - 1) = ?sl ! 0"
    using ne by (simp add: hd_conv_nth)
  show ?thesis
  proof
    fix x assume "x \<in> set out"
    then have "x \<in> set ?sl" by simp
    then obtain i where i: "i < length ?sl" "?sl ! i = x" by (metis in_set_conv_nth)
    have "?sl ! 0 \<le> ?sl ! i" by (rule sorted_nth_mono) (use i in auto)
    then show "thresholds_spec out ! (length (thresholds_spec out) - 1) \<le> x"
      using e i(2) by simp
  qed
qed

text \<open>
  Claim C10. For the column \<open>l\<close> of labels (entries in \<open>{0, 1}\<close>) and the column \<open>out\<close> of
  scores of a class, with any list \<open>idx\<close> of the record indices along which the scores do
  not increase (the reversed \<open>np_argsort\<close> is one) and the final state \<open>s\<close> of the sweep: at
  every threshold index the four arrays add up to the number of records; \<open>tp\<close> and \<open>fp\<close> do
  not decrease and \<open>fn\<close> and \<open>tn\<close> do not increase along the thresholds; the cursor starts at
  zero, never decreases from one iteration of the outer loop to the next and ends at the
  number of records; the number of records moved up to threshold \<open>j\<close>, \<open>tp[j] + fp[j]\<close>, is
  the cursor after iteration \<open>j\<close>; and \<open>idx\<close>, which the cursor runs through, holds every
  record index exactly once.
\<close>

theorem sweep_invariants:
  assumes "has_shape labels r c" "has_shape outputs r c" "0 < r" "binary_entries labels" "k < c"
    and "l = column labels k" "out = column outputs k" "thr = thresholds_spec out"
    and "sorts_descending idx out"
    and "s = sweep_upto l out idx r thr (length thr)"
  shows "(\<forall>j<length thr. sw_tp s ! j + sw_fp s ! j + sw_fn s ! j + sw_tn s ! j = int r)
       \<and> (\<forall>j. Suc j < length thr \<longrightarrow>
             sw_tp s ! j \<le> sw_tp s ! Suc j \<and> sw_fp s ! j \<le> sw_fp s ! Suc j
             \<and> sw_fn s ! Suc j \<le> sw_fn s ! j \<and> sw_tn s ! Suc j \<le> sw_tn s ! j)
       \<and> sw_i (sweep_upto l out idx r thr 1) = 0
       \<and> (\<forall>m. 0 < m \<and> m < length thr \<longrightarrow>
             sw_i (sweep_upto l out idx r thr m) \<le> sw_i (sweep_upto l out idx r thr (Suc m)))
       \<and> sw_i s = r
       \<and> (\<forall>j<length thr.
             sw_tp s ! j + sw_fp s ! j = int (sw_i (sweep_upto l out idx r thr (Suc j))))
       \<and> mset idx = mset [0..<r]
       \<and> sorts_descending (rev (np_argsort out)) out"
proof -
  have len: "length out = r" "length l = length out"
    using assms(1,2,6,7) by (simp_all add: length_column has_shape_def)
  have ne: "out \<noteq> []" using len(1) assms(3) by auto
  have bin: "list_all (\<lambda>x. x = 0 \<or> x = 1) l"
    unfolding assms(6) by (rule column_binary [OF assms(1,4,5)])
  note idx = assms(9)
  have pos: "0 < length thr" using thresholds_spec_props(1) [OF ne] assms(8) by simp
  have desc: "thr ! Suc j < thr ! j" if "Suc j < length thr" for j
    using thresholds_spec_props(2) [OF ne] that
    by (simp add: sorted_wrt_iff_nth_less assms(8))
  have arr: "sw_tp s ! j = tp_at l out (thr ! j)" "sw_fp s ! j = fp_at l out (thr ! j)"
    "sw_fn s ! j = fn_at l out (thr ! j)" "sw_tn s ! j = tn_at l out (thr ! j)"
    if "j < length thr" for j
    using sweep_arrays_binary [OF idx ne bin len(2), of "length thr" j] that pos
    by (simp_all add: assms(8,10) len(1))
  have cur: "sw_i (sweep_upto l out idx r thr m)
           = length (filter (\<lambda>i. thr ! (m - 1) \<le> out ! i) [0..<r])"
    if "0 < m" "m \<le> length thr" for m
    using sweep_arrays_truthy(5) [OF idx ne, where m = m and l = l] that
    by (simp add: assms(8) len(1))
  have a: "\<forall>j<length thr. sw_tp s ! j + sw_fp s ! j + sw_fn s ! j + sw_tn s ! j = int r"
    using counts_at_sum(1) [OF bin len(2)] by (simp add: arr len(1))
  have b: "\<forall>j. Suc j < length thr \<longrightarrow>
             sw_tp s ! j \<le> sw_tp s ! Suc j \<and> sw_fp s ! j \<le> sw_fp s ! Suc j
             \<and> sw_fn s ! Suc j \<le> sw_fn s ! j \<and> sw_tn s ! Suc j \<le> sw_tn s ! j"
  proof (intro allI impI)
    fix j assume j: "Suc j < length thr"
    then have j': "j < length thr" by simp
    have le: "thr ! Suc j \<le> thr ! j" using desc [OF j] by simp
    show "sw_tp s ! j \<le> sw_tp s ! Suc j \<and> sw_fp s ! j \<le> sw_fp s ! Suc j
             \<and> sw_fn s ! Suc j \<le> sw_fn s ! j \<and> sw_tn s ! Suc j \<le> sw_tn s ! j"
      unfolding arr [OF j] arr [OF j'] using counts_at_mono [OF le, of l out] by simp
  qed
  have one: "(0::nat) < 1" "1 \<le> length thr" using pos by (simp_all add: Suc_le_eq)
  have c0: "sw_i (sweep_upto l out idx r thr 1) = 0"
    using cur [OF one] nothing_above_first_threshold [OF ne, of "\<lambda>i. True"]
    by (simp add: assms(8) len(1))
  have d: "\<forall>m. 0 < m \<and> m < length thr \<longrightarrow>
             sw_i (sweep_upto l out idx r thr m) \<le> sw_i (sweep_upto l out idx r thr (Suc m))"
  proof (intro allI impI)
    fix m assume m: "0 < m \<and> m < length thr"
    then have "Suc (m - 1) < length thr" by simp
    from desc [OF this] m have le: "thr ! m \<le> thr ! (m - 1)" by simp
    show "sw_i (sweep_upto l out idx r thr m) \<le> sw_i (sweep_upto l out idx r thr (Suc m))"
      using m le by (simp add: cur) (auto intro!: length_filter_mono)
  qed
  have "filter (\<lambda>i. thr ! (length thr - 1) \<le> out ! i) [0..<r] = [0..<r]"
    using last_threshold_below [OF ne] len(1) by (auto simp: filter_id_conv assms(8))
  then have e: "sw_i s = r" using cur [of "length thr"] pos by (simp add: assms(10))
  have f: "\<forall>j<length thr.
             sw_tp s ! j + sw_fp s ! j = int (sw_i (sweep_upto l out idx r thr (Suc j)))"
    using counts_at_sum(2) [OF bin len(2)] by (simp add: arr cur len(1))
  have g: "mset idx = mset [0..<r]"
    using idx by (simp add: sorts_descending_def len(1))
  show ?thesis using a b c0 d e f g argsort_sorts_descending [of out] by blast
qed

theorem sweep_invariants_witness:
  "has_shape [[1, 0], [0, 1], [1, 1 :: int]] 3 2
   \<and> has_shape [[9 / 10, 1 / 10], [3 / 5, 2 / 5], [3 / 5, 1 / 2 :: rat]] 3 2
   \<and> (0::nat) < 3 \<and> binary_entries [[1, 0], [0, 1], [1, 1]] \<and> (0::nat) < 2
   \<and> length (thresholds_spec (column [[9 / 10, 1 / 10], [3 / 5, 2 / 5], [3 / 5, 1 / 2]] 0)) = 3
   \<and> sw_i (sweep_upto (column [[1, 0], [0, 1], [1, 1]] 0)
        (column [[9 / 10, 1 / 10], [3 / 5, 2 / 5], [3 / 5, 1 / 2]] 0)
        (rev (np_argsort (column [[9 / 10, 1 / 10], [3 / 5, 2 / 5], [3 / 5, 1 / 2]] 0))) 3
        (thresholds_spec (column [[9 / 10, 1 / 10], [3 / 5, 2 / 5], [3 / 5, 1 / 2]] 0)) 3) = 3
   \<and> mset (rev (np_argsort (column [[9 / 10, 1 / 10], [3 / 5, 2 / 5], [3 / 5, 1 / 2]] 0)))
        = mset [0..<3]"
proof -
  let ?L = "[[1, 0], [0, 1], [1, 1 :: int]]"
  let ?S = "[[9 / 10, 1 / 10], [3 / 5, 2 / 5], [3 / 5, 1 / 2 :: rat]]"
  have p: "(0::nat) < 3" "(0::nat) < 2" by simp_all
  have b: "binary_entries ?L" by (simp add: binary_entries_def)
  have t: "length (thresholds_spec (column ?S 0)) = 3" by code_simp
  from sweep_invariants [OF shape_witness_tie_labels shape_witness_tie_scores p(1) b p(2)
      refl refl refl argsort_sorts_descending refl]
  have "sw_i (sweep_upto (column ?L 0) (column ?S 0) (rev (np_argsort (column ?S 0))) 3
          (thresholds_spec (column ?S 0)) (length (thresholds_spec (column ?S 0)))) = 3"
    and "mset (rev (np_argsort (column ?S 0))) = mset [0..<3]"
    by blast+
  then show ?thesis
    using shape_witness_tie_labels shape_witness_tie_scores p b t by simp
qed

subsection \<open>Reordering the recordings\<close>

lemma perm_props:
  assumes "mset p = mset [0..<n]"
  shows "length p = n" and "set p = {0..<n}"
  using mset_eq_length [OF assms] mset_eq_setD [OF assms] by simp_all

lemma length_filter_perm:
  assumes p: "mset p = mset [0..<n]"
  shows "length (filter (\<lambda>i. Q (p ! i)) [0..<n]) = length (filter Q [0..<n])"
proof -
  have "map (\<lambda>i. p ! i) [0..<n] = p"
    using perm_props(1) [OF p] map_nth [of p] by simp
  then have "filter Q p = filter Q (map (\<lambda>i. p ! i) [0..<n])" by simp
  also have "length \<dots> = length (filter (\<lambda>i. Q (p ! i)) [0..<n])"
    by (simp only: filter_map comp_def length_map)
  finally have "length (filter Q p) = length (filter (\<lambda>i. Q (p ! i)) [0..<n])" .
  then show ?thesis using length_filter_mset [OF p, of Q] by simp
qed

lemma sweep_counts_perm:
  assumes p: "mset p = mset [0..<n]" and len: "length l = n" "length out = n"
  shows "sweep_counts (map (\<lambda>i. l ! i) p) (map (\<lambda>i. out ! i) p) t = sweep_counts l out t"
proof -
  note pp = perm_props [OF p]
  have "filter (\<lambda>i. t \<le> map (\<lambda>i. out ! i) p ! i \<and> map (\<lambda>i. l ! i) p ! i \<noteq> 0) [0..<n]
          = filter (\<lambda>i. t \<le> out ! (p ! i) \<and> l ! (p ! i) \<noteq> 0) [0..<n]"
    by (rule filter_cong) (simp_all add: pp(1))
  then have tp: "length (filter (\<lambda>i. t \<le> map (\<lambda>i. out ! i) p ! i \<and> map (\<lambda>i. l ! i) p ! i \<noteq> 0) [0..<n])
          = length (filter (\<lambda>i. t \<le> out ! i \<and> l ! i \<noteq> 0) [0..<n])"
    using length_filter_perm [OF p, of "\<lambda>x. t \<le> out ! x \<and> l ! x \<noteq> 0"] by simp
  have "filter (\<lambda>i. t \<le> map (\<lambda>i. out ! i) p ! i \<and> map (\<lambda>i. l ! i) p ! i = 0) [0..<n]
          = filter (\<lambda>i. t \<le> out ! (p ! i) \<and> l ! (p ! i) = 0) [0..<n]"
    by (rule filter_cong) (simp_all add: pp(1))
  then have fp: "length (filter (\<lambda>i. t \<le> map (\<lambda>i. out ! i) p ! i \<and> map (\<lambda>i. l ! i) p ! i = 0) [0..<n])
          = length (filter (\<lambda>i. t \<le> out ! i \<and> l ! i = 0) [0..<n])"
    using length_filter_perm [OF p, of "\<lambda>x. t \<le> out ! x \<and> l ! x = 0"] by simp
  have ones: "length (filter (\<lambda>x. x = v) (map (\<lambda>i. l ! i) p)) = length (filter (\<lambda>x. x = v) l)" for v
  proof -
    have "length (filter (\<lambda>x. x = v) (map (\<lambda>i. l ! i) p)) = length (filter (\<lambda>i. l ! i = v) p)"
      by (simp add: filter_map comp_def)
    also have "\<dots> = length (filter (\<lambda>i. l ! i = v) [0..<n])"
      by (rule length_filter_mset [OF p])
    also have "\<dots> = length (filter (\<lambda>x. x = v) l)"
      by (simp add: length_filter_nth [of "\<lambda>x. x = v" l] len)
    finally show ?thesis .
  qed
  show ?thesis
    unfolding sweep_counts_def Let_def
    by (simp only: length_map pp(1) len tp fp ones)
qed

lemma thresholds_spec_perm:
  assumes p: "mset p = mset [0..<n]" and len: "length out = n"
  shows "thresholds_spec (map (\<lambda>i. out ! i) p) = thresholds_spec out"
proof -
  have "set (map (\<lambda>i. out ! i) p) = (\<lambda>i. out ! i) ` {0..<n}"
    using perm_props(2) [OF p] by simp
  also have "\<dots> = set out"
    using len by (auto simp: set_conv_nth)
  finally show ?thesis by (simp add: thresholds_spec_def)
qed

lemma auc_closed_perm:
  assumes p: "mset p = mset [0..<n]" and len: "length l = n" "length out = n"
  shows "auc_closed (map (\<lambda>i. l ! i) p) (map (\<lambda>i. out ! i) p) = auc_closed l out"
  unfolding auc_closed_def
  by (simp only: thresholds_spec_perm [OF p len(2)] sweep_counts_perm [OF p len])

lemma column_perm:
  assumes "set p \<subseteq> {0..<length m}"
  shows "column (map (\<lambda>i. m ! i) p) k = map (\<lambda>i. column m k ! i) p"
  using assms by (auto simp: column_def)

lemma has_shape_perm:
  assumes "has_shape m r c" "mset p = mset [0..<r]"
  shows "has_shape (map (\<lambda>i. m ! i) p) r c"
  using assms(1) perm_props [OF assms(2)]
  by (auto simp: has_shape_def list_all_iff)

text \<open>
  Claim C8. Applying one permutation \<open>p\<close> of the record indices to the rows of the labels
  and to the rows of the scores leaves everything that \<open>compute_auc\<close> returns unchanged:
  the per-class AUROC and AUPRC and both macro values.
\<close>

theorem compute_auc_permutation_invariant:
  assumes "has_shape labels r c" "has_shape outputs r c" "0 < r" "mset p = mset [0..<r]"
  shows "compute_auc (map (\<lambda>i. labels ! i) p) (map (\<lambda>i. outputs ! i) p)
       = compute_auc labels outputs"
proof -
  have len: "length labels = r" "length outputs = r"
    using assms(1,2) by (simp_all add: has_shape_def)
  have sub: "set p \<subseteq> {0..<length labels}" "set p \<subseteq> {0..<length outputs}"
    using perm_props(2) [OF assms(4)] len by simp_all
  have col: "auc_closed (column (map (\<lambda>i. labels ! i) p) k) (column (map (\<lambda>i. outputs ! i) p) k)
           = auc_closed (column labels k) (column outputs k)" for k
    unfolding column_perm [OF sub(1)] column_perm [OF sub(2)]
    by (rule auc_closed_perm [OF assms(4)]) (simp_all add: length_column len)
  show ?thesis
    unfolding compute_auc_closed [OF has_shape_perm [OF assms(1,4)] has_shape_perm [OF assms(2,4)] assms(3)]
      compute_auc_closed [OF assms(1,2,3)] col ..
qed

theorem compute_auc_permutation_invariant_witness:
  "has_shape [[1, 0], [0, 1], [1, 1 :: int]] 3 2
   \<and> has_shape [[9 / 10, 1 / 10], [3 / 5, 2 / 5], [3 / 5, 1 / 2 :: rat]] 3 2
   \<and> (0::nat) < 3 \<and> mset [2, 0, 1] = mset [0..<3]
   \<and> compute_auc [[1, 1], [1, 0], [0, 1]] [[3 / 5, 1 / 2], [9 / 10, 1 / 10], [3 / 5, 2 / 5]]
       = compute_auc [[1, 0], [0, 1], [1, 1]] [[9 / 10, 1 / 10], [3 / 5, 2 / 5], [3 / 5, 1 / 2]]"
proof -
  have p: "(0::nat) < 3" by simp
  have m: "mset [2, 0, 1] = mset [0..<3]" by (simp add: upt_rec)
  show ?thesis
    using shape_witness_tie_labels shape_witness_tie_scores p m
      compute_auc_permutation_invariant [OF shape_witness_tie_labels shape_witness_tie_scores p m]
    by simp
qed

subsection \<open>Scores that separate the positive from the negative records\<close>

lemma sorted_list_of_set_eqI:
  assumes "sorted xs" "distinct xs" "set xs = A"
  shows "sorted_list_of_set A = (xs :: rat list)"
proof -
  have "finite A" using assms(3) by auto
  then show ?thesis
    using assms by (intro sorted_distinct_set_unique) simp_all
qed

lemma perfect_counts:
  assumes bin: "list_all (\<lambda>x. x = 0 \<or> x = 1) l" and len: "length l = length out"
    and out: "\<forall>i<length out. out ! i = (if l ! i = 1 then m else 0)" and m: "0 < m"
  shows "tp_at l out (m + 1) = 0" "fp_at l out (m + 1) = 0"
    and "tp_at l out m = int (length (filter (\<lambda>x. x = 1) l))" "fp_at l out m = 0"
    and "fn_at l out m = 0" "tn_at l out m = int (length (filter (\<lambda>x. x = 0) l))"
    and "tp_at l out 0 = int (length (filter (\<lambda>x. x = 1) l))"
    and "fp_at l out 0 = int (length (filter (\<lambda>x. x = 0) l))"
    and "fn_at l out 0 = 0" "tn_at l out 0 = 0"
proof -
  have b: "\<forall>i<length out. l ! i = 0 \<or> l ! i = 1"
    using bin len by (simp add: list_all_length)
  have e: "filter P [0..<length out] = []" if "\<And>i. i < length out \<Longrightarrow> \<not> P i" for P
    using that by (simp add: filter_empty_conv)
  show "tp_at l out (m + 1) = 0" unfolding tp_at_def
    by (subst e) (use out m in auto)
  show "fp_at l out (m + 1) = 0" unfolding fp_at_def
    by (subst e) (use out m in auto)
  show "fp_at l out m = 0" unfolding fp_at_def
    by (subst e) (use out m in auto)
  show "fn_at l out m = 0" unfolding fn_at_def
    by (subst e) (use out m in auto)
  show "fn_at l out 0 = 0" unfolding fn_at_def
    by (subst e) (use out m in auto)
  show "tn_at l out 0 = 0" unfolding tn_at_def
    by (subst e) (use out m in auto)
  have "filter (\<lambda>i. m \<le> out ! i \<and> l ! i = 1) [0..<length out]
      = filter (\<lambda>i. l ! i = 1) [0..<length out]"
    by (rule filter_cong) (use out in auto)
  then show "tp_at l out m = int (length (filter (\<lambda>x. x = 1) l))"
    by (simp add: tp_at_def length_filter_nth [of "\<lambda>x. x = 1" l] len)
  have "filter (\<lambda>i. 0 \<le> out ! i \<and> l ! i = 1) [0..<length out]
      = filter (\<lambda>i. l ! i = 1) [0..<length out]"
    by (rule filter_cong) (use out m in auto)
  then show "tp_at l out 0 = int (length (filter (\<lambda>x. x = 1) l))"
    by (simp add: tp_at_def length_filter_nth [of "\<lambda>x. x = 1" l] len)
  have "filter (\<lambda>i. 0 \<le> out ! i \<and> l ! i = 0) [0..<length out]
      = filter (\<lambda>i. l ! i = 0) [0..<length out]"
    by (rule filter_cong) (use out m in auto)
  then show "fp_at l out 0 = int (length (filter (\<lambda>x. x = 0) l))"
    by (simp add: fp_at_def length_filter_nth [of "\<lambda>x. x = 0" l] len)
  have "filter (\<lambda>i. \<not> m \<le> out ! i \<and> l ! i = 0) [0..<length out]
      = filter (\<lambda>i. l ! i = 0) [0..<length out]"
    by (rule filter_cong) (use out m in auto)
  then show "tn_at l out m = int (length (filter (\<lambda>x. x = 0) l))"
    by (simp add: tn_at_def length_filter_nth [of "\<lambda>x. x = 0" l] len)
qed

lemma perfect_score_set:
  assumes bin: "list_all (\<lambda>x. x = 0 \<or> x = 1) (l :: int list)" and len: "length l = length out"
    and out: "\<forall>i<length out. out ! i = (if l ! i = 1 then m else 0)"
  shows "set out = (if 1 \<in> set l then {m} else {}) \<union> (if 0 \<in> set l then {0} else {})"
proof -
  have b: "\<forall>i<length out. l ! i = 0 \<or> l ! i = 1"
    using bin len by (simp add: list_all_length)
  have "out = map (\<lambda>i. if l ! i = 1 then m else 0) [0..<length out]"
    using out by (intro nth_equalityI) simp_all
  then have "set out = set (map (\<lambda>i. if l ! i = 1 then m else 0) [0..<length out])"
    by simp
  also have "\<dots> = (\<lambda>i. if l ! i = 1 then m else 0) ` {0..<length out}"
    by (simp only: set_map set_upt)
  also have "\<dots> = (if 1 \<in> set l then {m} else {}) \<union> (if 0 \<in> set l then {0} else {})"
  proof (intro set_eqI iffI)
    fix x assume "x \<in> (\<lambda>i. if l ! i = 1 then m else 0) ` {0..<length out}"
    then obtain i where i: "i < length out" "x = (if l ! i = 1 then m else 0)" by auto
    have "l ! i \<in> set l" using i(1) len by simp
    then show "x \<in> (if 1 \<in> set l then {m} else {}) \<union> (if 0 \<in> set l then {0} else {})"
      using i b by (cases "l ! i = 1") auto
  next
    fix x assume x: "x \<in> (if 1 \<in> set l then {m} else {}) \<union> (if 0 \<in> set l then {0} else {})"
    then consider "1 \<in> set l" "x = m" | "0 \<in> set l" "x = 0"
      by (auto split: if_splits)
    then show "x \<in> (\<lambda>i. if l ! i = 1 then m else 0) ` {0..<length out}"
    proof cases
      case 1
      then obtain i where "i < length l" "l ! i = 1" by (auto simp: in_set_conv_nth)
      then show ?thesis using 1(2) len by (auto simp: image_iff intro!: bexI [of _ i])
    next
      case 2
      then obtain i where "i < length l" "l ! i = 0" by (auto simp: in_set_conv_nth)
      then show ?thesis using 2(2) len by (auto simp: image_iff intro!: bexI [of _ i])
    qed
  qed
  finally show ?thesis .
qed

lemma count_pos_iff: "0 < int (length (filter (\<lambda>x. x = v) l)) \<longleftrightarrow> v \<in> set (l :: int list)"
  by (induction l) auto

lemma count_zero_iff: "int (length (filter (\<lambda>x. x = v) l)) = 0 \<longleftrightarrow> v \<notin> set (l :: int list)"
  by (induction l) auto

lemma rate_simps:
  "rate a 0 = NaN" "d \<noteq> 0 \<Longrightarrow> rate 0 d = Fin 0" "d \<noteq> 0 \<Longrightarrow> rate d d = Fin 1"
  by (simp_all add: rate_def)

lemma tpr_without_positives:
  assumes "list_all (\<lambda>x. x = 0 \<or> x = 1) l" "length l = length out" "1 \<notin> set l"
  shows "tpr_at l out t = NaN"
  using binary_counts(2) [OF assms(1,2), of t] assms(3)
  by (simp add: tpr_at_def count_zero_iff [symmetric] rate_simps)

lemma tnr_without_negatives:
  assumes "list_all (\<lambda>x. x = 0 \<or> x = 1) l" "length l = length out" "0 \<notin> set l"
  shows "tnr_at l out t = NaN"
  using binary_counts(3) [OF assms(1,2), of t] assms(3)
  by (simp add: tnr_at_def count_zero_iff [symmetric] rate_simps)

lemma perfect_rates:
  assumes bin: "list_all (\<lambda>x. x = 0 \<or> x = 1) l" and len: "length l = length out"
    and out: "\<forall>i<length out. out ! i = (if l ! i = 1 then m else 0)" and m: "0 < m"
  shows "1 \<in> set l \<Longrightarrow> tpr_at l out (m + 1) = Fin 0"
    and "1 \<in> set l \<Longrightarrow> tpr_at l out m = Fin 1"
    and "1 \<in> set l \<Longrightarrow> tpr_at l out 0 = Fin 1"
    and "0 \<in> set l \<Longrightarrow> tnr_at l out (m + 1) = Fin 1"
    and "0 \<in> set l \<Longrightarrow> tnr_at l out m = Fin 1"
    and "0 \<in> set l \<Longrightarrow> tnr_at l out 0 = Fin 0"
    and "1 \<in> set l \<Longrightarrow> ppv_at l out m = Fin 1"
    and "1 \<in> set l \<Longrightarrow> isfinite (ppv_at l out 0)"
proof -
  note c = perfect_counts [OF bin len out m]
  note s = binary_counts(2,3) [OF bin len]
  let ?P = "int (length (filter (\<lambda>x. x = 1) l))"
  let ?N = "int (length (filter (\<lambda>x. x = 0) l))"
  have fn1: "fn_at l out (m + 1) = ?P" using s(1) [of "m + 1"] c(1) by simp
  have tn1: "tn_at l out (m + 1) = ?N" using s(2) [of "m + 1"] c(2) by simp
  have nn: "0 \<le> ?N" by simp
  show "tpr_at l out (m + 1) = Fin 0" if "1 \<in> set l"
    using that count_pos_iff [of 1 l] by (simp add: tpr_at_def c(1) fn1 rate_simps)
  show "tpr_at l out m = Fin 1" if "1 \<in> set l"
    using that count_pos_iff [of 1 l] by (simp add: tpr_at_def c(3,5) rate_simps)
  show "tpr_at l out 0 = Fin 1" if "1 \<in> set l"
    using that count_pos_iff [of 1 l] by (simp add: tpr_at_def c(7,9) rate_simps)
  show "tnr_at l out (m + 1) = Fin 1" if "0 \<in> set l"
    using that count_pos_iff [of 0 l] by (simp add: tnr_at_def c(2) tn1 rate_simps)
  show "tnr_at l out m = Fin 1" if "0 \<in> set l"
    using that count_pos_iff [of 0 l] by (simp add: tnr_at_def c(4,6) rate_simps)
  show "tnr_at l out 0 = Fin 0" if "0 \<in> set l"
    using that count_pos_iff [of 0 l] by (simp add: tnr_at_def c(8,10) rate_simps)
  show "ppv_at l out m = Fin 1" if "1 \<in> set l"
    using that count_pos_iff [of 1 l] by (simp add: ppv_at_def c(3,4) rate_simps)
  show "isfinite (ppv_at l out 0)" if "1 \<in> set l"
  proof -
    have "0 < ?P" using that count_pos_iff [of 1 l] by simp
    then have "?P + ?N \<noteq> 0" using nn by linarith
    then show ?thesis by (simp add: ppv_at_def c(7,8) rate_def)
  qed
qed

lemma upt_2: "[0..<2] = [0, Suc 0]"
  by (simp add: upt_rec numeral_2_eq_2)

lemma flt_mul_zero_finite: "isfinite x \<Longrightarrow> flt_mul (Fin 0) x = Fin 0"
  by (cases x) simp_all

lemma perfect_auc_both:
  assumes bin: "list_all (\<lambda>x. x = 0 \<or> x = 1) l" and len: "length l = length out"
    and out: "\<forall>i<length out. out ! i = (if l ! i = 1 then m else 0)" and m: "0 < m"
    and pos: "1 \<in> set l" and neg: "0 \<in> set l"
  shows "auroc_spec l out = Fin 1" and "auprc_spec l out = Fin 1"
proof -
  have so: "set out = {m, 0}"
    using perfect_score_set [OF bin len out] pos neg by auto
  have "sorted_list_of_set {m, 0} = [0, m]"
    by (rule sorted_list_of_set_eqI) (use m in auto)
  moreover have "Max {m, 0} = m" using m by (simp add: max_def)
  ultimately have thr: "thresholds_spec out = [m + 1, m, 0]"
    by (simp add: thresholds_spec_def so)
  note r = perfect_rates [OF bin len out m]
  show "auroc_spec l out = Fin 1"
    by (simp add: auroc_spec_def thr upt_2 flt_sum_Cons flt_sum_Nil
        r(1-3) [OF pos] r(4-6) [OF neg])
  show "auprc_spec l out = Fin 1"
    by (simp add: auprc_spec_def thr upt_2 flt_sum_Cons flt_sum_Nil
        r(1-3) [OF pos] r(7) [OF pos] flt_mul_zero_finite [OF r(8) [OF pos]])
qed

lemma perfect_auc_no_negative:
  assumes bin: "list_all (\<lambda>x. x = 0 \<or> x = 1) l" and len: "length l = length out"
    and out: "\<forall>i<length out. out ! i = (if l ! i = 1 then m else 0)" and m: "0 < m"
    and pos: "1 \<in> set l" and neg: "0 \<notin> set l"
  shows "auroc_spec l out = NaN" and "auprc_spec l out = Fin 1"
proof -
  have so: "set out = {m}"
    using perfect_score_set [OF bin len out] pos neg by auto
  have thr: "thresholds_spec out = [m + 1, m]"
    by (simp add: thresholds_spec_def so)
  note r = perfect_rates [OF bin len out m]
  show "auroc_spec l out = NaN"
    by (simp add: auroc_spec_def thr flt_sum_Cons flt_sum_Nil
        tnr_without_negatives [OF bin len neg])
  show "auprc_spec l out = Fin 1"
    by (simp add: auprc_spec_def thr flt_sum_Cons flt_sum_Nil r(1-3) [OF pos] r(7) [OF pos])
qed

lemma perfect_auc_no_positive:
  assumes bin: "list_all (\<lambda>x. x = 0 \<or> x = 1) l" and len: "length l = length out"
    and ne: "out \<noteq> []" and pos: "1 \<notin> set l"
  shows "auroc_spec l out = NaN" and "auprc_spec l out = NaN"
proof -
  have "length (thresholds_spec out) - Suc 0 = length (sorted_list_of_set (set out))"
    by (simp add: thresholds_spec_def)
  moreover have "sorted_list_of_set (set out) \<noteq> []" using ne by simp
  ultimately have "length (thresholds_spec out) - Suc 0 \<noteq> 0" by (simp del: length_sorted_list_of_set)
  then obtain n where n: "length (thresholds_spec out) - Suc 0 = Suc n"
    using not0_implies_Suc by blast
  have u: "[0..<Suc n] = 0 # [1..<Suc n]" by (simp add: upt_rec)
  show "auroc_spec l out = NaN"
    by (simp add: auroc_spec_def Let_def n u flt_sum_Cons tpr_without_positives [OF bin len pos]
        del: upt_Suc)
  show "auprc_spec l out = NaN"
    by (simp add: auprc_spec_def Let_def n u flt_sum_Cons tpr_without_positives [OF bin len pos]
        del: upt_Suc)
qed

lemma perfect_auc_column:
  assumes bin: "list_all (\<lambda>x. x = 0 \<or> x = 1) l" and len: "length l = length out"
    and ne: "out \<noteq> []"
    and out: "\<forall>i<length out. out ! i = (if l ! i = 1 then m else 0)" and m: "0 < m"
  shows "auroc_spec l out = (if 1 \<in> set l \<and> 0 \<in> set l then Fin 1 else NaN)"
    and "auprc_spec l out = (if 1 \<in> set l then Fin 1 else NaN)"
  using perfect_auc_both [OF bin len out m] perfect_auc_no_negative [OF bin len out m]
    perfect_auc_no_positive [OF bin len ne]
  by auto

text \<open>
  Claim C9, as the code has it. Let the scores of class \<open>k\<close> be a positive value \<open>m\<close> for
  every record that is positive for the class and \<open>0\<close> for every other record. Then
  \<open>compute_auc\<close> returns, the AUPRC of the class is \<open>1\<close> when the class has a positive record
  and NaN otherwise, and the AUROC of the class is \<open>1\<close> when the class has both a positive and
  a negative record and NaN otherwise: a class that is positive in every record has the
  AUROC NaN as well, because its true negative rate has the denominator zero.
\<close>

theorem perfect_scores_auc:
  assumes "has_shape labels r c" "has_shape outputs r c" "0 < r" "binary_entries labels" "k < c"
    and "0 < m" "\<forall>i<r. outputs ! i ! k = (if labels ! i ! k = 1 then m else 0)"
  shows "\<exists>macro_auroc macro_auprc auroc auprc.
           compute_auc labels outputs = Inr (macro_auroc, macro_auprc, auroc, auprc)
           \<and> auroc ! k = (if 1 \<in> set (column labels k) \<and> 0 \<in> set (column labels k)
                          then Fin 1 else NaN)
           \<and> auprc ! k = (if 1 \<in> set (column labels k) then Fin 1 else NaN)"
proof -
  let ?l = "column labels k" and ?out = "column outputs k"
  have lens: "length labels = r" "length outputs = r"
    using assms(1,2) by (simp_all add: has_shape_def)
  have len: "length ?l = length ?out" by (simp add: length_column lens)
  have ne: "?out \<noteq> []" using assms(3) lens by (auto simp: column_def)
  have bin: "list_all (\<lambda>x. x = 0 \<or> x = 1) ?l"
    by (rule column_binary [OF assms(1,4,5)])
  have out: "\<forall>i<length ?out. ?out ! i = (if ?l ! i = 1 then m else 0)"
    using assms(7) by (simp add: column_def lens)
  note v = perfect_auc_column [OF bin len ne out assms(6)]
  show ?thesis
    using assms(5) auc_closed_binary [OF bin len]
    by (simp add: compute_auc_closed [OF assms(1,2,3)] Let_def v)
qed

lemma shape_witness_perfect_scores: "has_shape [[1, 0], [0, 1], [1, 1 :: rat]] 3 2"
  by (simp add: has_shape_def)

theorem perfect_scores_auc_witness:
  "has_shape [[1, 0], [0, 1], [1, 1 :: int]] 3 2 \<and> has_shape [[1, 0], [0, 1], [1, 1 :: rat]] 3 2
   \<and> (0::nat) < 3 \<and> binary_entries [[1, 0], [0, 1], [1, 1]] \<and> (0::nat) < 2 \<and> (0::rat) < 1
   \<and> list_all (\<lambda>i. [[1, 0], [0, 1], [1, 1 :: rat]] ! i ! 0
                      = (if [[1, 0], [0, 1], [1, 1 :: int]] ! i ! 0 = 1 then 1 else 0)) [0..<3]
   \<and> (case compute_auc [[1, 0], [0, 1], [1, 1]] [[1, 0], [0, 1], [1, 1]] of
         Inl e \<Rightarrow> False
       | Inr (macro_auroc, macro_auprc, auroc, auprc) \<Rightarrow> auroc ! 0 = Fin 1 \<and> auprc ! 0 = Fin 1)"
proof -
  let ?L = "[[1, 0], [0, 1], [1, 1 :: int]]"
  let ?S = "[[1, 0], [0, 1], [1, 1 :: rat]]"
  have p: "(0::nat) < 3" "(0::nat) < 2" "(0::rat) < 1" by simp_all
  have b: "binary_entries ?L" by (simp add: binary_entries_def)
  have h: "list_all (\<lambda>i. ?S ! i ! 0 = (if ?L ! i ! 0 = 1 then 1 else 0)) [0..<3]"
    by (simp add: upt_rec)
  then have h': "\<forall>i<3. ?S ! i ! 0 = (if ?L ! i ! 0 = 1 then 1 else 0)"
    by (simp add: list_all_iff)
  have c: "1 \<in> set (column ?L 0)" "0 \<in> set (column ?L 0)" by (simp_all add: column_def)
  from perfect_scores_auc [OF shape_witness_tie_labels shape_witness_perfect_scores p(1) b p(2,3) h']
  obtain macro_auroc macro_auprc auroc auprc where
    "compute_auc ?L ?S = Inr (macro_auroc, macro_auprc, auroc, auprc)"
    "auroc ! 0 = Fin 1" "auprc ! 0 = Fin 1"
    using c by auto
  then show ?thesis
    using shape_witness_tie_labels shape_witness_perfect_scores p b h by simp
qed

text \<open>
  A class that is positive in every record: class 0 of two records, with the scores equal
  to the labels. Its AUROC is NaN although the class appears.
\<close>

theorem perfect_scores_all_positive_counterexample:
  "1 \<in> set (column [[1, 0], [1, 1 :: int]] 0)
   \<and> compute_auc [[1, 0], [1, 1]] [[1, 0], [1, 1]] = Inr (Fin 1, Fin 1, [NaN, Fin 1], [Fin 1, Fin 1])"
  by (simp add: column_def) code_simp

subsection \<open>Macro averages\<close>

lemma nansum_filter_isfinite: "nansum xs = sum_list (map nan_to_zero (filter isfinite xs))"
proof (induction xs)
  case Nil
  show ?case by (simp add: nansum_def)
next
  case (Cons x xs)
  then show ?case by (cases x) (simp_all add: nansum_def)
qed

lemma nanmean_macro_mean: "nanmean xs = macro_mean xs"
  by (simp add: nanmean_def macro_mean_def Let_def nansum_filter_isfinite)

lemma guarded_nanmean_macro_mean:
  "(if list_ex isfinite xs then nanmean xs else NaN) = macro_mean xs"
proof (cases "list_ex isfinite xs")
  case True
  then show ?thesis by (simp add: nanmean_macro_mean)
next
  case False
  then have "filter isfinite xs = []" by (simp add: filter_empty_conv list_ex_iff)
  with False show ?thesis by (simp add: macro_mean_def)
qed

lemma macro_mean_all_nan: "list_all (\<lambda>x. x = NaN) xs \<Longrightarrow> macro_mean xs = NaN"
proof -
  assume "list_all (\<lambda>x. x = NaN) xs"
  then have "filter isfinite xs = []" by (auto simp: filter_empty_conv list_all_iff)
  then show ?thesis by (simp add: macro_mean_def)
qed

lemma auc_spec_undefined:
  assumes bin: "list_all (\<lambda>x. x = 0 \<or> x = 1) l" and len: "length l = length out"
    and ne: "out \<noteq> []"
  shows "1 \<notin> set l \<Longrightarrow> auroc_spec l out = NaN"
    and "1 \<notin> set l \<Longrightarrow> auprc_spec l out = NaN"
    and "0 \<notin> set l \<Longrightarrow> auroc_spec l out = NaN"
proof -
  show "auroc_spec l out = NaN" if "1 \<notin> set l"
    by (rule perfect_auc_no_positive(1) [OF bin len ne that])
  show "auprc_spec l out = NaN" if "1 \<notin> set l"
    by (rule perfect_auc_no_positive(2) [OF bin len ne that])
  show "auroc_spec l out = NaN" if neg: "0 \<notin> set l"
  proof -
    have "length (thresholds_spec out) - Suc 0 = length (sorted_list_of_set (set out))"
      by (simp add: thresholds_spec_def)
    moreover have "sorted_list_of_set (set out) \<noteq> []" using ne by simp
    ultimately have "length (thresholds_spec out) - Suc 0 \<noteq> 0"
      by (simp del: length_sorted_list_of_set)
    then obtain n where n: "length (thresholds_spec out) - Suc 0 = Suc n"
      using not0_implies_Suc by blast
    have u: "[0..<Suc n] = 0 # [1..<Suc n]" by (simp add: upt_rec)
    have nan: "flt_mul x NaN = NaN" for x by (cases x) simp_all
    show ?thesis
      by (simp add: auroc_spec_def Let_def n u flt_sum_Cons nan
          tnr_without_negatives [OF bin len neg] del: upt_Suc)
  qed
qed

lemma class_value_nan_iff:
  "f_measure_class Ak = NaN \<longleftrightarrow> 2 * (Ak ! 1 ! 1) + Ak ! 1 ! 0 + Ak ! 0 ! 1 = 0"
  "f_beta_class beta Ak = NaN
     \<longleftrightarrow> (1 + beta\<^sup>2) * (Ak ! 1 ! 1) + Ak ! 1 ! 0 + beta\<^sup>2 * (Ak ! 0 ! 1) = 0"
  "g_beta_class beta Ak = NaN \<longleftrightarrow> Ak ! 1 ! 1 + Ak ! 1 ! 0 + beta * (Ak ! 0 ! 1) = 0"
  "rate num den = NaN \<longleftrightarrow> den = 0"
  by (simp_all add: f_measure_class_def f_beta_class_def g_beta_class_def rate_def Let_def)

lemma compute_f_measure_macro:
  assumes "has_shape labels r c" "0 < r"
    and "compute_confusion_matrices labels outputs False = Inr A"
  shows "compute_f_measure labels outputs
       = Inr (macro_mean (map (\<lambda>k. f_measure_class (A ! k)) [0..<c]),
              map (\<lambda>k. f_measure_class (A ! k)) [0..<c])"
  by (simp add: compute_f_measure_def np_shape_has_shape [OF assms(1,2)] assms(3) Let_def
      guarded_nanmean_macro_mean)

lemma compute_beta_measures_macro:
  assumes "has_shape labels r c" "0 < r"
    and "compute_confusion_matrices labels outputs True = Inr A"
  shows "compute_beta_measures labels outputs beta
       = Inr (macro_mean (map (\<lambda>k. f_beta_class beta (A ! k)) [0..<c]),
              macro_mean (map (\<lambda>k. g_beta_class beta (A ! k)) [0..<c]))"
  by (simp add: compute_beta_measures_def np_shape_has_shape [OF assms(1,2)] assms(3) Let_def
      nanmean_macro_mean)

lemma compute_auc_macro:
  assumes sh: "has_shape labels r c" "has_shape scores r c" "0 < r"
    and bin: "binary_entries labels"
  shows "compute_auc labels scores
       = Inr (macro_mean (map (\<lambda>k. auroc_spec (column labels k) (column scores k)) [0..<c]),
              macro_mean (map (\<lambda>k. auprc_spec (column labels k) (column scores k)) [0..<c]),
              map (\<lambda>k. auroc_spec (column labels k) (column scores k)) [0..<c],
              map (\<lambda>k. auprc_spec (column labels k) (column scores k)) [0..<c])"
proof -
  have lens: "length labels = r" "length scores = r"
    using sh(1,2) by (simp_all add: has_shape_def)
  have col: "auc_closed (column labels k) (column scores k)
      = (auroc_spec (column labels k) (column scores k),
         auprc_spec (column labels k) (column scores k))" if "k < c" for k
    by (rule auc_closed_binary [OF column_binary [OF sh(1) bin that]])
       (simp add: length_column lens)
  have a: "map (\<lambda>k. fst (auc_closed (column labels k) (column scores k))) [0..<c]
         = map (\<lambda>k. auroc_spec (column labels k) (column scores k)) [0..<c]"
    by (rule map_cong [OF refl]) (simp add: col)
  have b: "map (\<lambda>k. snd (auc_closed (column labels k) (column scores k))) [0..<c]
         = map (\<lambda>k. auprc_spec (column labels k) (column scores k)) [0..<c]"
    by (rule map_cong [OF refl]) (simp add: col)
  show ?thesis
    unfolding compute_auc_closed [OF sh] Let_def a b guarded_nanmean_macro_mean ..
qed

text \<open>
  Claim C4. For labels and binary predictions with entries in \<open>{0, 1}\<close> and scores, all of
  one shape with at least one recording, the five functions return (they do not raise), and
  each macro value is \<open>macro_mean\<close> of the per-class values: the mean of the values that are
  not NaN, which is NaN when every value is NaN. A per-class F1, F-beta or G-beta value is
  NaN exactly when its denominator is zero; the AUROC and AUPRC of a class without a
  positive record (the denominator of the true positive rate is zero) are NaN, and so is
  the AUROC of a class without a negative record (the denominator of the true negative rate
  is zero).
\<close>

theorem macro_metrics_ignore_nan:
  assumes "has_shape labels r c" "has_shape outputs r c" "has_shape scores r c" "0 < r"
    and "binary_entries labels" "binary_entries outputs"
  shows "(\<exists>auroc auprc.
            compute_auc labels scores = Inr (macro_mean auroc, macro_mean auprc, auroc, auprc)
            \<and> length auroc = c \<and> length auprc = c
            \<and> (\<forall>k<c. (1 \<notin> set (column labels k) \<longrightarrow> auroc ! k = NaN \<and> auprc ! k = NaN)
                     \<and> (0 \<notin> set (column labels k) \<longrightarrow> auroc ! k = NaN)))
       \<and> (\<exists>A. compute_confusion_matrices labels outputs False = Inr A
            \<and> compute_f_measure labels outputs
                = Inr (macro_mean (map (\<lambda>k. f_measure_class (A ! k)) [0..<c]),
                       map (\<lambda>k. f_measure_class (A ! k)) [0..<c])
            \<and> (\<forall>k. f_measure_class (A ! k) = NaN
                     \<longleftrightarrow> 2 * (A ! k ! 1 ! 1) + A ! k ! 1 ! 0 + A ! k ! 0 ! 1 = 0))
       \<and> (\<exists>A. compute_confusion_matrices labels outputs True = Inr A
            \<and> compute_beta_measures labels outputs beta
                = Inr (macro_mean (map (\<lambda>k. f_beta_class beta (A ! k)) [0..<c]),
                       macro_mean (map (\<lambda>k. g_beta_class beta (A ! k)) [0..<c]))
            \<and> (\<forall>k. (f_beta_class beta (A ! k) = NaN
                      \<longleftrightarrow> (1 + beta\<^sup>2) * (A ! k ! 1 ! 1) + A ! k ! 1 ! 0
                            + beta\<^sup>2 * (A ! k ! 0 ! 1) = 0)
                   \<and> (g_beta_class beta (A ! k) = NaN
                      \<longleftrightarrow> A ! k ! 1 ! 1 + A ! k ! 1 ! 0 + beta * (A ! k ! 0 ! 1) = 0)))
       \<and> (\<forall>xs. list_all (\<lambda>x. x = NaN) xs \<longrightarrow> macro_mean xs = NaN)"
proof (intro conjI)
  have lens: "length labels = r" "length scores = r"
    using assms(1,3) by (simp_all add: has_shape_def)
  have und: "(1 \<notin> set (column labels k) \<longrightarrow>
                auroc_spec (column labels k) (column scores k) = NaN
                \<and> auprc_spec (column labels k) (column scores k) = NaN)
           \<and> (0 \<notin> set (column labels k) \<longrightarrow>
                auroc_spec (column labels k) (column scores k) = NaN)" if k: "k < c" for k
  proof -
    have len: "length (column labels k) = length (column scores k)"
      by (simp add: length_column lens)
    have ne: "column scores k \<noteq> []" using assms(4) lens by (auto simp: column_def)
    show ?thesis
      using auc_spec_undefined [OF column_binary [OF assms(1,5) k] len ne] by blast
  qed
  show "\<exists>auroc auprc.
            compute_auc labels scores = Inr (macro_mean auroc, macro_mean auprc, auroc, auprc)
            \<and> length auroc = c \<and> length auprc = c
            \<and> (\<forall>k<c. (1 \<notin> set (column labels k) \<longrightarrow> auroc ! k = NaN \<and> auprc ! k = NaN)
                     \<and> (0 \<notin> set (column labels k) \<longrightarrow> auroc ! k = NaN))"
    using und by (simp add: compute_auc_macro [OF assms(1,3,4,5)])
next
  from confusion_matrices_binary_returns [OF assms(1,2,4,5,6), of False]
  obtain A where A: "compute_confusion_matrices labels outputs False = Inr A" by blast
  show "\<exists>A. compute_confusion_matrices labels outputs False = Inr A
            \<and> compute_f_measure labels outputs
                = Inr (macro_mean (map (\<lambda>k. f_measure_class (A ! k)) [0..<c]),
                       map (\<lambda>k. f_measure_class (A ! k)) [0..<c])
            \<and> (\<forall>k. f_measure_class (A ! k) = NaN
                     \<longleftrightarrow> 2 * (A ! k ! 1 ! 1) + A ! k ! 1 ! 0 + A ! k ! 0 ! 1 = 0)"
    using A compute_f_measure_macro [OF assms(1,4) A] class_value_nan_iff(1) by blast
next
  from confusion_matrices_binary_returns [OF assms(1,2,4,5,6), of True]
  obtain A where A: "compute_confusion_matrices labels outputs True = Inr A" by blast
  show "\<exists>A. compute_confusion_matrices labels outputs True = Inr A
            \<and> compute_beta_measures labels outputs beta
                = Inr (macro_mean (map (\<lambda>k. f_beta_class beta (A ! k)) [0..<c]),
                       macro_mean (map (\<lambda>k. g_beta_class beta (A ! k)) [0..<c]))
            \<and> (\<forall>k. (f_beta_class beta (A ! k) = NaN
                      \<longleftrightarrow> (1 + beta\<^sup>2) * (A ! k ! 1 ! 1) + A ! k ! 1 ! 0
                            + beta\<^sup>2 * (A ! k ! 0 ! 1) = 0)
                   \<and> (g_beta_class beta (A ! k) = NaN
                      \<longleftrightarrow> A ! k ! 1 ! 1 + A ! k ! 1 ! 0 + beta * (A ! k ! 0 ! 1) = 0))"
    using A compute_beta_measures_macro [OF assms(1,4) A, of beta] class_value_nan_iff(2,3)
    by blast
next
  show "\<forall>xs. list_all (\<lambda>x. x = NaN) xs \<longrightarrow> macro_mean xs = NaN"
    using macro_mean_all_nan by blast
qed

lemma shape_witness_absent_labels: "has_shape [[1, 0, 0], [0, 1, 0 :: int]] 2 3"
  by (simp add: has_shape_def)

lemma shape_witness_absent_outputs: "has_shape [[1, 0, 0], [1, 0, 0 :: int]] 2 3"
  by (simp add: has_shape_def)

lemma shape_witness_absent_scores:
  "has_shape [[9 / 10, 1 / 10, 0], [3 / 5, 2 / 5, 0 :: rat]] 2 3"
  by (simp add: has_shape_def)

theorem macro_metrics_ignore_nan_witness:
  "has_shape [[1, 0, 0], [0, 1, 0 :: int]] 2 3 \<and> has_shape [[1, 0, 0], [1, 0, 0 :: int]] 2 3
   \<and> has_shape [[9 / 10, 1 / 10, 0], [3 / 5, 2 / 5, 0 :: rat]] 2 3 \<and> (0::nat) < 2
   \<and> binary_entries [[1, 0, 0], [0, 1, 0]] \<and> binary_entries [[1, 0, 0], [1, 0, 0]]
   \<and> 1 \<notin> set (column [[1, 0, 0], [0, 1, 0 :: int]] 2)
   \<and> (case compute_auc [[1, 0, 0], [0, 1, 0]] [[9 / 10, 1 / 10, 0], [3 / 5, 2 / 5, 0]] of
         Inl e \<Rightarrow> False
       | Inr (macro_auroc, macro_auprc, auroc, auprc) \<Rightarrow>
           macro_auroc = macro_mean auroc \<and> macro_auprc = macro_mean auprc
           \<and> auroc ! 2 = NaN \<and> auprc ! 2 = NaN)
   \<and> (case compute_f_measure [[1, 0, 0], [0, 1, 0]] [[1, 0, 0], [1, 0, 0]] of
         Inl e \<Rightarrow> False
       | Inr (macro_f_measure, f_measure) \<Rightarrow> macro_f_measure = macro_mean f_measure)
   \<and> compute_beta_measures [[1, 0, 0], [0, 1, 0]] [[1, 0, 0], [1, 0, 0]] 2 \<noteq> Inl ValueError
   \<and> macro_mean [Fin (2 / 3), Fin 0, NaN] = Fin (1 / 3)
   \<and> macro_mean [NaN, NaN] = NaN"
proof -
  let ?L = "[[1, 0, 0], [0, 1, 0 :: int]]"
  let ?B = "[[1, 0, 0], [1, 0, 0 :: int]]"
  let ?S = "[[9 / 10, 1 / 10, 0], [3 / 5, 2 / 5, 0 :: rat]]"
  have p: "(0::nat) < 2" by simp
  have b: "binary_entries ?L" "binary_entries ?B" by (simp_all add: binary_entries_def)
  have c: "1 \<notin> set (column ?L 2)" by (simp add: column_def)
  have m: "macro_mean [Fin (2 / 3), Fin 0, NaN] = Fin (1 / 3)" "macro_mean [NaN, NaN] = NaN"
    by (simp_all add: macro_mean_def)
  note t = macro_metrics_ignore_nan [OF shape_witness_absent_labels shape_witness_absent_outputs
      shape_witness_absent_scores p b, of 2]
  from t obtain auroc auprc where
    a: "compute_auc ?L ?S = Inr (macro_mean auroc, macro_mean auprc, auroc, auprc)"
    "\<forall>k<3. (1 \<notin> set (column ?L k) \<longrightarrow> auroc ! k = NaN \<and> auprc ! k = NaN)
           \<and> (0 \<notin> set (column ?L k) \<longrightarrow> auroc ! k = NaN)"
    by blast
  from a(2) c have a2: "auroc ! 2 = NaN" "auprc ! 2 = NaN" by simp_all
  from t obtain A where
    f: "compute_f_measure ?L ?B
          = Inr (macro_mean (map (\<lambda>k. f_measure_class (A ! k)) [0..<3]),
                 map (\<lambda>k. f_measure_class (A ! k)) [0..<3])"
    by blast
  from t obtain A' where
    g: "compute_beta_measures ?L ?B 2
          = Inr (macro_mean (map (\<lambda>k. f_beta_class 2 (A' ! k)) [0..<3]),
                 macro_mean (map (\<lambda>k. g_beta_class 2 (A' ! k)) [0..<3]))"
    by blast
  show ?thesis
    using shape_witness_absent_labels shape_witness_absent_outputs shape_witness_absent_scores
      p b c m a(1) a2 f g
    by simp
qed

subsection \<open>The modified confusion matrix in rounded arithmetic\<close>

lemma add2_fl_shape:
  assumes "has_shape A r c"
  shows "has_shape (add2_fl rnd A j k v) r c"
  unfolding has_shape_nth
proof (intro conjI allI impI)
  show "length (add2_fl rnd A j k v) = r" using assms by (simp add: add2_fl_def has_shape_nth)
next
  fix i assume "i < r"
  then show "length (add2_fl rnd A j k v ! i) = c"
    using assms by (cases "i = j") (simp_all add: add2_fl_def has_shape_nth)
qed

lemma add2_fl_entry:
  assumes "has_shape A r c" "j < r" "k < c" "j' < r" "k' < c"
  shows "add2_fl rnd A j k v ! j' ! k'
       = (if j' = j \<and> k' = k then rnd (A ! j' ! k' + v) else A ! j' ! k')"
  using assms by (cases "j' = j"; cases "k' = k") (simp_all add: has_shape_nth add2_fl_def)

lemma inner_fold_entry_fl:
  assumes "has_shape A c c" "j < c" "\<forall>k\<in>set ks. k < c" "distinct ks"
  shows "has_shape (fold (\<lambda>k A. if out ! k \<noteq> (0::int) then add2_fl rnd A j k v else A) ks A) c c
       \<and> (\<forall>j'<c. \<forall>k'<c.
             fold (\<lambda>k A. if out ! k \<noteq> 0 then add2_fl rnd A j k v else A) ks A ! j' ! k'
             = (if j' = j \<and> k' \<in> set ks \<and> out ! k' \<noteq> 0
                then rnd (A ! j' ! k' + v) else A ! j' ! k'))"
  using assms
proof (induction ks arbitrary: A)
  case Nil
  then show ?case by simp
next
  case (Cons k ks)
  define A1 where "A1 = (if out ! k \<noteq> 0 then add2_fl rnd A j k v else A)"
  have k: "k < c" "k \<notin> set ks" using Cons.prems by auto
  have sh1: "has_shape A1 c c" using Cons.prems(1) by (simp add: A1_def add2_fl_shape)
  have e1: "A1 ! j' ! k'
      = (if j' = j \<and> k' = k \<and> out ! k' \<noteq> 0 then rnd (A ! j' ! k' + v) else A ! j' ! k')"
    if "j' < c" "k' < c" for j' k'
    using add2_fl_entry [OF Cons.prems(1) Cons.prems(2) k(1) that, of rnd v] by (auto simp: A1_def)
  from Cons.IH [OF sh1 Cons.prems(2)] Cons.prems
  have ih: "has_shape (fold (\<lambda>k A. if out ! k \<noteq> 0 then add2_fl rnd A j k v else A) ks A1) c c"
    "\<forall>j'<c. \<forall>k'<c. fold (\<lambda>k A. if out ! k \<noteq> 0 then add2_fl rnd A j k v else A) ks A1 ! j' ! k'
             = (if j' = j \<and> k' \<in> set ks \<and> out ! k' \<noteq> 0
                then rnd (A1 ! j' ! k' + v) else A1 ! j' ! k')"
    by auto
  show ?case
    using ih e1 k by (auto simp: A1_def [symmetric])
qed

lemma outer_fold_entry_fl:
  assumes "has_shape A c c" "\<forall>j\<in>set js. j < c" "distinct js"
  shows "has_shape (fold (\<lambda>j A. if l ! j \<noteq> (0::int)
                      then fold (\<lambda>k A. if out ! k \<noteq> (0::int) then add2_fl rnd A j k v else A)
                             [0..<c] A
                      else A) js A) c c
       \<and> (\<forall>j'<c. \<forall>k'<c. fold (\<lambda>j A. if l ! j \<noteq> 0
                      then fold (\<lambda>k A. if out ! k \<noteq> 0 then add2_fl rnd A j k v else A) [0..<c] A
                      else A) js A ! j' ! k'
             = (if j' \<in> set js \<and> l ! j' \<noteq> 0 \<and> out ! k' \<noteq> 0
                then rnd (A ! j' ! k' + v) else A ! j' ! k'))"
  using assms
proof (induction js arbitrary: A)
  case Nil
  then show ?case by simp
next
  case (Cons j js)
  define A1 where "A1 = (if l ! j \<noteq> 0
                      then fold (\<lambda>k A. if out ! k \<noteq> 0 then add2_fl rnd A j k v else A) [0..<c] A
                      else A)"
  have j: "j < c" "j \<notin> set js" using Cons.prems by auto
  have inner: "has_shape (fold (\<lambda>k A. if out ! k \<noteq> 0 then add2_fl rnd A j k v else A) [0..<c] A) c c"
    "\<forall>j'<c. \<forall>k'<c. fold (\<lambda>k A. if out ! k \<noteq> 0 then add2_fl rnd A j k v else A) [0..<c] A ! j' ! k'
             = (if j' = j \<and> k' \<in> set [0..<c] \<and> out ! k' \<noteq> 0
                then rnd (A ! j' ! k' + v) else A ! j' ! k')"
    using inner_fold_entry_fl [OF Cons.prems(1) j(1), of "[0..<c]" out rnd v] by auto
  have sh1: "has_shape A1 c c" using Cons.prems(1) inner(1) by (simp add: A1_def)
  have e1: "A1 ! j' ! k'
      = (if j' = j \<and> l ! j' \<noteq> 0 \<and> out ! k' \<noteq> 0 then rnd (A ! j' ! k' + v) else A ! j' ! k')"
    if "j' < c" "k' < c" for j' k'
    using inner(2) that by (auto simp: A1_def)
  from Cons.IH [OF sh1] Cons.prems
  have ih: "has_shape (fold (\<lambda>j A. if l ! j \<noteq> 0
                      then fold (\<lambda>k A. if out ! k \<noteq> 0 then add2_fl rnd A j k v else A) [0..<c] A
                      else A) js A1) c c"
    "\<forall>j'<c. \<forall>k'<c. fold (\<lambda>j A. if l ! j \<noteq> 0
                      then fold (\<lambda>k A. if out ! k \<noteq> 0 then add2_fl rnd A j k v else A) [0..<c] A
                      else A) js A1 ! j' ! k'
             = (if j' \<in> set js \<and> l ! j' \<noteq> 0 \<and> out ! k' \<noteq> 0
                then rnd (A1 ! j' ! k' + v) else A1 ! j' ! k')"
    by auto
  show ?case
    using ih e1 j by (auto simp: A1_def [symmetric])
qed

lemma modified_row_fl_entry:
  assumes "has_shape A c c"
  shows "has_shape (modified_row_fl rnd c l out A) c c
       \<and> (\<forall>j<c. \<forall>k<c. modified_row_fl rnd c l out A ! j ! k
             = (if l ! j \<noteq> 0 \<and> out ! k \<noteq> 0
                then rnd (A ! j ! k + rnd (1 / of_nat (max (length (filter
                       (\<lambda>c. l ! c \<noteq> 0 \<or> out ! c \<noteq> 0) [0..<c])) 1)))
                else A ! j ! k))"
  using outer_fold_entry_fl [OF assms, of "[0..<c]" l out rnd]
  by (simp add: modified_row_fl_def Let_def)

lemma modified_rows_fl_entry:
  assumes "has_shape A c c" "\<forall>i\<in>set is. i < length outputs"
  shows "\<exists>M. modified_rows_fl rnd c labels outputs is A = Inr M \<and> has_shape M c c
       \<and> (\<forall>j<c. \<forall>k<c. M ! j ! k
             = fold (\<lambda>i a. if labels ! i ! j \<noteq> 0 \<and> outputs ! i ! k \<noteq> 0
                  then rnd (a + rnd (1 / of_nat (max (length (filter
                         (\<lambda>c. labels ! i ! c \<noteq> 0 \<or> outputs ! i ! c \<noteq> 0) [0..<c])) 1)))
                  else a) is (A ! j ! k))"
  using assms
proof (induction "is" arbitrary: A)
  case Nil
  then show ?case by simp
next
  case (Cons i "is")
  from modified_row_fl_entry [OF Cons.prems(1), of rnd "labels ! i" "outputs ! i"]
  have r: "has_shape (modified_row_fl rnd c (labels ! i) (outputs ! i) A) c c"
    "\<forall>j<c. \<forall>k<c. modified_row_fl rnd c (labels ! i) (outputs ! i) A ! j ! k
             = (if labels ! i ! j \<noteq> 0 \<and> outputs ! i ! k \<noteq> 0
                then rnd (A ! j ! k + rnd (1 / of_nat (max (length (filter
                       (\<lambda>c. labels ! i ! c \<noteq> 0 \<or> outputs ! i ! c \<noteq> 0) [0..<c])) 1)))
                else A ! j ! k)"
    by auto
  have rest: "\<forall>i\<in>set is. i < length outputs" and i: "i < length outputs"
    using Cons.prems(2) by auto
  from Cons.IH [OF r(1) rest] r(2) i show ?case by simp
qed

lemma modified_rows_fl_missing_row:
  assumes "\<exists>i\<in>set is. \<not> i < length outputs"
  shows "modified_rows_fl rnd c labels outputs is A = Inl IndexError"
  using assms by (induction "is" arbitrary: A) auto

lemma modified_rows_fl_error:
  "modified_rows_fl rnd c labels outputs is A = Inl e \<Longrightarrow> e = IndexError"
  by (induction "is" arbitrary: A) (auto split: if_splits)


lemma modified_confusion_matrix_fl_truthy:
  assumes "has_shape labels r c" "0 < r" "r \<le> length outputs"
  shows "\<exists>M. compute_modified_confusion_matrix_fl rnd labels outputs = Inr M \<and> has_shape M c c
       \<and> (\<forall>j<c. \<forall>k<c. M ! j ! k
             = fold (\<lambda>i a. if labels ! i ! j \<noteq> 0 \<and> outputs ! i ! k \<noteq> 0
                  then rnd (a + rnd (1 / of_nat (max (length (filter
                         (\<lambda>c. labels ! i ! c \<noteq> 0 \<or> outputs ! i ! c \<noteq> 0) [0..<c])) 1)))
                  else a) [0..<r] 0)"
proof -
  have rows: "\<forall>i\<in>set [0..<r]. i < length outputs" using assms(3) by simp
  show ?thesis
    using modified_rows_fl_entry [OF zeros2_shape rows, where c = c and rnd = rnd and labels = labels]
    by (simp add: compute_modified_confusion_matrix_fl_def np_shape_has_shape [OF assms(1,2)]
        zeros2_entry)
qed

lemma modified_confusion_matrix_fl_missing_row:
  assumes "has_shape labels r c" "0 < r" "length outputs < r"
  shows "compute_modified_confusion_matrix_fl rnd labels outputs = Inl IndexError"
proof -
  have "\<exists>i\<in>set [0..<r]. \<not> i < length outputs"
    using assms(3) by (intro bexI [of _ "length outputs"]) simp_all
  from modified_rows_fl_missing_row [OF this] show ?thesis
    by (simp add: compute_modified_confusion_matrix_fl_def np_shape_has_shape [OF assms(1,2)])
qed

lemma modified_confusion_matrix_fl_error:
  "compute_modified_confusion_matrix_fl rnd labels outputs = Inl e \<Longrightarrow> e = IndexError"
  by (auto simp: compute_modified_confusion_matrix_fl_def Let_def split: prod.splits
      dest: modified_rows_fl_error)

lemma binary_union_size:
  assumes sh: "has_shape labels r c" "has_shape outputs r c"
    and bin: "binary_entries labels" "binary_entries outputs" and i: "i < r"
  shows "length (filter (\<lambda>c. labels ! i ! c \<noteq> 0 \<or> outputs ! i ! c \<noteq> 0) [0..<c])
       = union_size (labels ! i) (outputs ! i)"
proof -
  have bl: "\<forall>j<c. labels ! i ! j = 0 \<or> labels ! i ! j = 1"
    and bo: "\<forall>j<c. outputs ! i ! j = 0 \<or> outputs ! i ! j = 1"
    using bin binary_entries_nth [OF sh(1)] binary_entries_nth [OF sh(2)] i by auto
  have f: "filter (\<lambda>c. labels ! i ! c \<noteq> 0 \<or> outputs ! i ! c \<noteq> 0) [0..<c]
         = filter (\<lambda>c. labels ! i ! c = 1 \<or> outputs ! i ! c = 1) [0..<c]"
    by (rule filter_cong) (use bl bo in auto)
  have len: "length (labels ! i) = c" by (rule has_shape_row [OF sh(1) i])
  show ?thesis by (simp only: f union_size_def len)
qed

lemma binary_positive:
  assumes sh: "has_shape labels r c" "has_shape outputs r c"
    and bin: "binary_entries labels" "binary_entries outputs"
    and i: "i < r" and j: "j < c" and k: "k < c"
  shows "(labels ! i ! j \<noteq> 0 \<and> outputs ! i ! k \<noteq> 0)
       \<longleftrightarrow> (labels ! i ! j = 1 \<and> outputs ! i ! k = 1)"
  using bin binary_entries_nth [OF sh(1)] binary_entries_nth [OF sh(2)] i j k by auto

lemma modified_confusion_matrix_fl_binary:
  assumes sh: "has_shape labels r c" "has_shape outputs r c" "0 < r"
    and bin: "binary_entries labels" "binary_entries outputs"
  shows "\<exists>M. compute_modified_confusion_matrix_fl rnd labels outputs = Inr M \<and> has_shape M c c
       \<and> (\<forall>j<c. \<forall>k<c. M ! j ! k = modified_confusion_entry_fl rnd labels outputs j k)"
proof -
  have len: "length labels = r" "r \<le> length outputs"
    using sh(1,2) by (simp_all add: has_shape_def)
  from modified_confusion_matrix_fl_truthy [OF sh(1,3) len(2), of rnd]
  obtain M where M: "compute_modified_confusion_matrix_fl rnd labels outputs = Inr M"
    "has_shape M c c"
    "\<forall>j<c. \<forall>k<c. M ! j ! k
             = fold (\<lambda>i a. if labels ! i ! j \<noteq> 0 \<and> outputs ! i ! k \<noteq> 0
                  then rnd (a + rnd (1 / of_nat (max (length (filter
                         (\<lambda>c. labels ! i ! c \<noteq> 0 \<or> outputs ! i ! c \<noteq> 0) [0..<c])) 1)))
                  else a) [0..<r] 0"
    by blast
  have "M ! j ! k = modified_confusion_entry_fl rnd labels outputs j k"
    if jk: "j < c" "k < c" for j k
  proof -
    have "fold (\<lambda>i a. if labels ! i ! j \<noteq> 0 \<and> outputs ! i ! k \<noteq> 0
                  then rnd (a + rnd (1 / of_nat (max (length (filter
                         (\<lambda>c. labels ! i ! c \<noteq> 0 \<or> outputs ! i ! c \<noteq> 0) [0..<c])) 1)))
                  else a) [0..<r] 0
        = fold (\<lambda>i a. if labels ! i ! j = 1 \<and> outputs ! i ! k = 1
                  then rnd (a + rnd (1 / of_nat (max (union_size (labels ! i) (outputs ! i)) 1)))
                  else a) [0..<r] 0"
    proof (rule fold_cong [OF refl refl], rule ext)
      fix i a assume "i \<in> set [0..<r]"
      then have i: "i < r" by simp
      show "(if labels ! i ! j \<noteq> 0 \<and> outputs ! i ! k \<noteq> 0
                  then rnd (a + rnd (1 / of_nat (max (length (filter
                         (\<lambda>c. labels ! i ! c \<noteq> 0 \<or> outputs ! i ! c \<noteq> 0) [0..<c])) 1)))
                  else a)
          = (if labels ! i ! j = 1 \<and> outputs ! i ! k = 1
                  then rnd (a + rnd (1 / of_nat (max (union_size (labels ! i) (outputs ! i)) 1)))
                  else a)"
        by (simp only: binary_union_size [OF sh(1,2) bin i] binary_positive [OF sh(1,2) bin i jk])
    qed
    then show ?thesis
      using M(3) jk by (simp add: modified_confusion_entry_fl_def len(1))
  qed
  with M(1,2) show ?thesis by blast
qed

lemma modified_row_fl_exact: "modified_row_fl (\<lambda>x. x) c l out A = modified_row c l out A"
proof -
  have eq: "add2_fl (\<lambda>x. x) = add2"
    by (intro ext) (simp add: add2_fl_def add2_def)
  show ?thesis unfolding modified_row_fl_def modified_row_def eq ..
qed

lemma modified_rows_fl_exact:
  assumes "\<forall>i\<in>set is. i < length outputs"
  shows "modified_rows_fl (\<lambda>x. x) c labels outputs is A
       = Inr (fold (\<lambda>i A. modified_row c (labels ! i) (outputs ! i) A) is A)"
  using assms by (induction "is" arbitrary: A) (simp_all add: modified_row_fl_exact)

text \<open>
  Without rounding, and for outputs that have a row for every row of the labels, the
  function of this subsection is \<open>compute_modified_confusion_matrix\<close>.
\<close>

lemma modified_confusion_matrix_fl_exact:
  assumes "length labels \<le> length outputs"
  shows "compute_modified_confusion_matrix_fl (\<lambda>x. x) labels outputs
       = Inr (compute_modified_confusion_matrix labels outputs)"
proof -
  have "\<forall>i\<in>set [0..<length labels]. i < length outputs" using assms by simp
  from modified_rows_fl_exact [OF this] show ?thesis
    by (simp add: compute_modified_confusion_matrix_fl_def compute_modified_confusion_matrix_def
        np_shape_def)
qed

lemma fold_conditional_sum:
  "fold (\<lambda>i a. if P i then a + v i else a) xs (a0::rat)
     = a0 + sum_list (map (\<lambda>i. if P i then v i else 0) xs)"
  by (induction xs arbitrary: a0) simp_all

lemma modified_confusion_entry_fl_exact:
  "modified_confusion_entry_fl (\<lambda>x. x) labels outputs j k
     = modified_confusion_entry labels outputs j k"
  by (simp add: modified_confusion_entry_fl_def modified_confusion_entry_def fold_conditional_sum)


subsection \<open>The weighted sums\<close>

lemma np_shape_square: "has_shape m c c \<Longrightarrow> np_shape m = (c, c)"
  by (cases "c = 0") (auto simp: np_shape_has_shape, simp add: has_shape_def np_shape_def)

lemma broadcast_dim_same: "broadcast_dim c c = Some c"
  by (simp add: broadcast_dim_def)

lemma np_multiply_square:
  assumes "has_shape W c c" "has_shape A c c"
  shows "np_multiply rnd W A
       = Inr (map (\<lambda>j. map (\<lambda>k. flt_mul_rnd rnd (W ! j ! k) (A ! j ! k)) [0..<c]) [0..<c])"
proof -
  have ix: "(if c = 1 then 0 else j) = j" if "j < c" for j using that by auto
  have "map (\<lambda>j. map (\<lambda>k. flt_mul_rnd rnd
                  (W ! (if c = 1 then 0 else j) ! (if c = 1 then 0 else k))
                  (A ! (if c = 1 then 0 else j) ! (if c = 1 then 0 else k))) [0..<c]) [0..<c]
      = map (\<lambda>j. map (\<lambda>k. flt_mul_rnd rnd (W ! j ! k) (A ! j ! k)) [0..<c]) [0..<c]"
    by (intro map_cong refl) auto
  then show ?thesis
    by (simp add: np_multiply_def np_shape_square [OF assms(1)] np_shape_square [OF assms(2)]
        broadcast_dim_same)
qed

lemma np_multiply_mismatch:
  assumes "has_shape W wr wc" "0 < wr" "has_shape A c c"
    and "broadcast_dim wr c = None \<or> broadcast_dim wc c = None"
  shows "np_multiply rnd W A = Inl ValueError_broadcast"
  using assms(4)
  by (auto simp: np_multiply_def np_shape_has_shape [OF assms(1,2)] np_shape_square [OF assms(3)]
      split: option.splits)

lemma np_multiply_error: "np_multiply rnd W A = Inl e \<Longrightarrow> e = ValueError_broadcast"
  by (auto simp: np_multiply_def Let_def split: prod.splits option.splits)

lemma nan_to_zero_mul_rnd:
  "nan_to_zero (flt_mul_rnd rnd w a) = (case w of NaN \<Rightarrow> 0 | Fin w' \<Rightarrow> rnd (w' * a))"
  by (cases w) simp_all

lemma np_nansum_product:
  "np_nansum fsum (map (\<lambda>j. map (\<lambda>k. flt_mul_rnd rnd (W ! j ! k) (A ! j ! k)) [0..<c]) [0..<c])
     = weighted_score_fl rnd fsum W (\<lambda>j k. A ! j ! k) c"
  by (simp add: np_nansum_def weighted_score_fl_def map_concat comp_def nan_to_zero_mul_rnd)

lemma weighted_score_fl_cong:
  assumes "\<And>j k. j < c \<Longrightarrow> k < c \<Longrightarrow> M j k = N j k"
  shows "weighted_score_fl rnd fsum W M c = weighted_score_fl rnd fsum W N c"
proof -
  have "map (\<lambda>j. map (\<lambda>k. case W ! j ! k of NaN \<Rightarrow> 0 | Fin w \<Rightarrow> rnd (w * M j k)) [0..<c]) [0..<c]
      = map (\<lambda>j. map (\<lambda>k. case W ! j ! k of NaN \<Rightarrow> 0 | Fin w \<Rightarrow> rnd (w * N j k)) [0..<c]) [0..<c]"
    by (intro map_cong refl) (simp add: assms split: flt.splits)
  then show ?thesis by (simp only: weighted_score_fl_def)
qed

lemma sum_list_concat_map:
  "sum_list (concat (map f xs)) = (\<Sum>x\<leftarrow>xs. sum_list (f x :: rat list))"
  by (induction xs) simp_all

lemma weighted_score_fl_exact:
  "weighted_score_fl (\<lambda>x. x) sum_list W M c = weighted_score W M c"
  by (simp add: weighted_score_fl_def weighted_score_def sum_list_concat_map)

lemma weighted_confusion_score_value:
  assumes "has_shape W c c" "has_shape labels r c" "has_shape outputs r c" "0 < r"
    and "binary_entries labels" "binary_entries outputs"
  shows "weighted_confusion_score rnd fsum W labels outputs
       = Inr (weighted_score_fl rnd fsum W (modified_confusion_entry_fl rnd labels outputs) c)"
proof -
  from modified_confusion_matrix_fl_binary [OF assms(2-), of rnd]
  obtain M where M: "compute_modified_confusion_matrix_fl rnd labels outputs = Inr M"
    "has_shape M c c"
    "\<forall>j<c. \<forall>k<c. M ! j ! k = modified_confusion_entry_fl rnd labels outputs j k"
    by blast
  have "weighted_score_fl rnd fsum W (\<lambda>j k. M ! j ! k) c
      = weighted_score_fl rnd fsum W (modified_confusion_entry_fl rnd labels outputs) c"
    by (rule weighted_score_fl_cong) (use M(3) in simp)
  then show ?thesis
    by (simp add: weighted_confusion_score_def M(1) np_multiply_square [OF assms(1) M(2)]
        np_nansum_product)
qed

lemma weighted_confusion_score_error:
  "weighted_confusion_score rnd fsum W labels outputs = Inl e
     \<Longrightarrow> e = IndexError \<or> e = ValueError_broadcast"
  by (auto simp: weighted_confusion_score_def split: sum.splits
      dest: modified_confusion_matrix_fl_error np_multiply_error)

subsection \<open>The challenge metric\<close>

lemma default_only_shape: "has_shape (default_only r c d) r c"
  by (simp add: default_only_def has_shape_nth)

lemma default_only_binary: "binary_entries (default_only r c d)"
  by (auto simp: default_only_def binary_entries_def list_all_iff)

lemma inactive_outputs_default_only:
  "map (\<lambda>row. row[d := 1]) (zeros2 r c) = default_only r c d"
  by (auto simp: zeros2_def default_only_def intro!: nth_equalityI simp: nth_list_update)

lemma list_index_first:
  assumes "d < length xs" "xs ! d = x" "\<forall>i<d. xs ! i \<noteq> x"
  shows "list_index xs x = d"
  using assms
proof (induction xs arbitrary: d)
  case Nil
  then show ?case by simp
next
  case (Cons y ys)
  show ?case
  proof (cases d)
    case 0
    then show ?thesis using Cons.prems by simp
  next
    case (Suc d')
    have "y \<noteq> x" using Cons.prems(3) Suc by (auto dest: spec [of _ 0])
    moreover have "list_index ys x = d'"
      using Cons.prems Suc by (intro Cons.IH) auto
    ultimately show ?thesis using Suc by simp
  qed
qed

lemma challenge_metric_value:
  assumes W: "has_shape W c c" and L: "has_shape labels r c" and B: "has_shape outputs r c"
    and r: "0 < r" and bl: "binary_entries labels" and bo: "binary_entries outputs"
    and d: "d < length classes" "d < c" "classes ! d = sinus_rhythm"
      "\<forall>i<d. classes ! i \<noteq> sinus_rhythm"
  shows "compute_challenge_metric rnd fsum W labels outputs classes sinus_rhythm
       = (let observed = weighted_score_fl rnd fsum W
                           (modified_confusion_entry_fl rnd labels outputs) c;
              perfect = weighted_score_fl rnd fsum W
                          (modified_confusion_entry_fl rnd labels labels) c;
              baseline = weighted_score_fl rnd fsum W
                           (modified_confusion_entry_fl rnd labels (default_only r c d)) c
          in if perfect = baseline then Inr (Fin 0)
             else if rnd (perfect - baseline) = 0 then Inl ZeroDivisionError
             else Inr (Fin (rnd (rnd (observed - baseline) / rnd (perfect - baseline)))))"
proof -
  have idx: "list_index classes sinus_rhythm = d" by (rule list_index_first [OF d(1,3,4)])
  have mem: "sinus_rhythm \<in> set classes" using d(1,3) by (auto simp: in_set_conv_nth)
  note obs = weighted_confusion_score_value [OF W L B r bl bo, of rnd fsum]
  note cor = weighted_confusion_score_value [OF W L L r bl bl, of rnd fsum]
  note ina = weighted_confusion_score_value
               [OF W L default_only_shape r bl default_only_binary, of rnd fsum d]
  show ?thesis
    using d(2) mem
    by (simp add: compute_challenge_metric_def np_shape_has_shape [OF L r] Let_def idx
        inactive_outputs_default_only obs cor ina)
qed


text \<open>
  Claim C1. For a weight matrix of shape \<open>(c, c)\<close>, labels and predictions of shape \<open>(r, c)\<close>
  with entries in \<open>{0, 1}\<close>, and a list of classes whose first occurrence of the sinus rhythm
  class is at a position \<open>d\<close> below \<open>c\<close>: whatever the rounding \<open>rnd\<close> of the arithmetic and
  the summation \<open>fsum\<close>, \<open>compute_challenge_metric\<close> returns \<open>0\<close> when the computed score
  \<open>perfect\<close> equals the computed score \<open>baseline\<close>, and the computed quotient
  \<open>(observed - baseline) / (perfect - baseline)\<close> otherwise, where the three scores are the
  NaN-ignoring weighted sums of the modified confusion matrices of the labels with the
  predictions, with the labels themselves, and with the predictions that choose class \<open>d\<close>
  alone for every recording. The comparison is one of the computed scores, as in the code;
  the division raises only if the computed difference of two different scores is zero. In
  exact arithmetic the result is \<open>0\<close> when \<open>perfect = baseline\<close> and
  \<open>(observed - baseline) / (perfect - baseline)\<close> otherwise.
\<close>

theorem challenge_metric_normalized_score:
  assumes "has_shape W c c" "has_shape labels r c" "has_shape outputs r c" "0 < r"
    and "binary_entries labels" "binary_entries outputs"
    and "d < length classes" "d < c" "classes ! d = sinus_rhythm"
    and "\<forall>i<d. classes ! i \<noteq> sinus_rhythm"
  shows "compute_challenge_metric rnd fsum W labels outputs classes sinus_rhythm
       = (let observed = weighted_score_fl rnd fsum W
                           (modified_confusion_entry_fl rnd labels outputs) c;
              perfect = weighted_score_fl rnd fsum W
                          (modified_confusion_entry_fl rnd labels labels) c;
              baseline = weighted_score_fl rnd fsum W
                           (modified_confusion_entry_fl rnd labels (default_only r c d)) c
          in if perfect = baseline then Inr (Fin 0)
             else if rnd (perfect - baseline) = 0 then Inl ZeroDivisionError
             else Inr (Fin (rnd (rnd (observed - baseline) / rnd (perfect - baseline)))))
     \<and> compute_challenge_metric (\<lambda>x. x) sum_list W labels outputs classes sinus_rhythm
       = (let observed = weighted_score W (modified_confusion_entry labels outputs) c;
              perfect = weighted_score W (modified_confusion_entry labels labels) c;
              baseline = weighted_score W (modified_confusion_entry labels (default_only r c d)) c
          in if perfect = baseline then Inr (Fin 0)
             else Inr (Fin ((observed - baseline) / (perfect - baseline))))"
proof (rule conjI)
  show "compute_challenge_metric rnd fsum W labels outputs classes sinus_rhythm
       = (let observed = weighted_score_fl rnd fsum W
                           (modified_confusion_entry_fl rnd labels outputs) c;
              perfect = weighted_score_fl rnd fsum W
                          (modified_confusion_entry_fl rnd labels labels) c;
              baseline = weighted_score_fl rnd fsum W
                           (modified_confusion_entry_fl rnd labels (default_only r c d)) c
          in if perfect = baseline then Inr (Fin 0)
             else if rnd (perfect - baseline) = 0 then Inl ZeroDivisionError
             else Inr (Fin (rnd (rnd (observed - baseline) / rnd (perfect - baseline)))))"
    by (rule challenge_metric_value [OF assms])
next
  have ex: "modified_confusion_entry_fl (\<lambda>x. x) labels out = modified_confusion_entry labels out"
    for out
    by (intro ext) (rule modified_confusion_entry_fl_exact)
  show "compute_challenge_metric (\<lambda>x. x) sum_list W labels outputs classes sinus_rhythm
       = (let observed = weighted_score W (modified_confusion_entry labels outputs) c;
              perfect = weighted_score W (modified_confusion_entry labels labels) c;
              baseline = weighted_score W (modified_confusion_entry labels (default_only r c d)) c
          in if perfect = baseline then Inr (Fin 0)
             else Inr (Fin ((observed - baseline) / (perfect - baseline))))"
    unfolding challenge_metric_value [OF assms] weighted_score_fl_exact ex
    by (simp add: Let_def)
qed

lemma shape_witness_weights: "has_shape [[Fin 1, NaN], [Fin (1 / 2), Fin 1]] 2 2"
  by (simp add: has_shape_def)

lemma shape_witness_three_labels: "has_shape [[0, 1], [1, 0], [1, 0 :: int]] 3 2"
  by (simp add: has_shape_def)

lemma shape_witness_three_outputs: "has_shape [[0, 1], [1, 1], [1, 0 :: int]] 3 2"
  by (simp add: has_shape_def)

lemma shape_witness_weights3:
  "has_shape [[Fin 1, Fin 1, Fin 2], [Fin 0, Fin 0, Fin 0], [Fin 0, Fin 5, Fin 1]] 3 3"
  by (simp add: has_shape_def)

lemma shape_witness_one_label: "has_shape [[1, 0, 1 :: int]] 1 3"
  by (simp add: has_shape_def)

lemma shape_witness_one_output: "has_shape [[0, 0, 0 :: int]] 1 3"
  by (simp add: has_shape_def)

theorem challenge_metric_normalized_score_witness:
  "has_shape [[Fin 1, NaN], [Fin (1 / 2), Fin 1]] 2 2
   \<and> has_shape [[0, 1], [1, 0], [1, 0 :: int]] 3 2 \<and> has_shape [[0, 1], [1, 1], [1, 0 :: int]] 3 2
   \<and> binary_entries [[0, 1], [1, 0], [1, 0]] \<and> binary_entries [[0, 1], [1, 1], [1, 0]]
   \<and> [''AF'', ''NSR''] ! 1 = ''NSR'' \<and> [''AF'', ''NSR''] ! 0 \<noteq> ''NSR''
   \<and> compute_challenge_metric (\<lambda>x. x) sum_list [[Fin 1, NaN], [Fin (1 / 2), Fin 1]]
        [[0, 1], [1, 0], [1, 0]] [[0, 1], [1, 1], [1, 0]] [''AF'', ''NSR''] ''NSR''
       = Inr (Fin (3 / 4))
   \<and> has_shape [[Fin 1, Fin 1, Fin 2], [Fin 0, Fin 0, Fin 0], [Fin 0, Fin 5, Fin 1]] 3 3
   \<and> has_shape [[1, 0, 1 :: int]] 1 3 \<and> has_shape [[0, 0, 0 :: int]] 1 3
   \<and> binary_entries [[1, 0, 1]] \<and> binary_entries [[0, 0, 0]]
   \<and> [''AF'', ''NSR'', ''PVC''] ! 1 = ''NSR'' \<and> [''AF'', ''NSR'', ''PVC''] ! 0 \<noteq> ''NSR''
   \<and> compute_challenge_metric (\<lambda>x. x) sum_list
        [[Fin 1, Fin 1, Fin 2], [Fin 0, Fin 0, Fin 0], [Fin 0, Fin 5, Fin 1]]
        [[1, 0, 1]] [[0, 0, 0]] [''AF'', ''NSR'', ''PVC''] ''NSR''
       = Inr (Fin 0)
   \<and> compute_challenge_metric (\<lambda>x. of_int \<lfloor>x * 1000 + 1 / 2\<rfloor> / 1000)
        (\<lambda>xs. fold (\<lambda>x a. of_int \<lfloor>(a + x) * 1000 + 1 / 2\<rfloor> / 1000) xs 0)
        [[Fin 1, Fin 1, Fin 2], [Fin 0, Fin 0, Fin 0], [Fin 0, Fin 5, Fin 1]]
        [[1, 0, 1]] [[0, 0, 0]] [''AF'', ''NSR'', ''PVC''] ''NSR''
       = Inr (Fin (- 999))"
proof -
  have b: "binary_entries [[0, 1], [1, 0], [1, 0]]" "binary_entries [[0, 1], [1, 1], [1, 0]]"
    "binary_entries [[1, 0, 1]]" "binary_entries [[0, 0, 0]]"
    by (simp_all add: binary_entries_def)
  have c2: "1 < length [''AF'', ''NSR'']" "(1::nat) < 2" "[''AF'', ''NSR''] ! 1 = ''NSR''"
    "\<forall>i<1. [''AF'', ''NSR''] ! i \<noteq> ''NSR''"
    by simp_all
  have c3: "1 < length [''AF'', ''NSR'', ''PVC'']" "(1::nat) < 3"
    "[''AF'', ''NSR'', ''PVC''] ! 1 = ''NSR''" "\<forall>i<1. [''AF'', ''NSR'', ''PVC''] ! i \<noteq> ''NSR''"
    by simp_all
  have n: "[''AF'', ''NSR''] ! 0 \<noteq> ''NSR''" "[''AF'', ''NSR'', ''PVC''] ! 0 \<noteq> ''NSR''"
    by simp_all
  have p: "(0::nat) < 3" "(0::nat) < 1" by simp_all
  have v1: "(let observed = weighted_score [[Fin 1, NaN], [Fin (1 / 2), Fin 1]]
                (modified_confusion_entry [[0, 1], [1, 0], [1, 0]] [[0, 1], [1, 1], [1, 0]]) 2;
              perfect = weighted_score [[Fin 1, NaN], [Fin (1 / 2), Fin 1]]
                (modified_confusion_entry [[0, 1], [1, 0], [1, 0]] [[0, 1], [1, 0], [1, 0]]) 2;
              baseline = weighted_score [[Fin 1, NaN], [Fin (1 / 2), Fin 1]]
                (modified_confusion_entry [[0, 1], [1, 0], [1, 0]] (default_only 3 2 1)) 2
          in if perfect = baseline then Inr (Fin 0)
             else Inr (Fin ((observed - baseline) / (perfect - baseline))))
        = (Inr (Fin (3 / 4)) :: error + flt)"
    by code_simp
  have v2: "(let observed = weighted_score
                [[Fin 1, Fin 1, Fin 2], [Fin 0, Fin 0, Fin 0], [Fin 0, Fin 5, Fin 1]]
                (modified_confusion_entry [[1, 0, 1]] [[0, 0, 0]]) 3;
              perfect = weighted_score
                [[Fin 1, Fin 1, Fin 2], [Fin 0, Fin 0, Fin 0], [Fin 0, Fin 5, Fin 1]]
                (modified_confusion_entry [[1, 0, 1]] [[1, 0, 1]]) 3;
              baseline = weighted_score
                [[Fin 1, Fin 1, Fin 2], [Fin 0, Fin 0, Fin 0], [Fin 0, Fin 5, Fin 1]]
                (modified_confusion_entry [[1, 0, 1]] (default_only 1 3 1)) 3
          in if perfect = baseline then Inr (Fin 0)
             else Inr (Fin ((observed - baseline) / (perfect - baseline))))
        = (Inr (Fin 0) :: error + flt)"
    by code_simp
  have v3: "(let rnd = (\<lambda>x. of_int \<lfloor>x * 1000 + 1 / 2\<rfloor> / 1000);
              fsum = (\<lambda>xs. fold (\<lambda>x a. of_int \<lfloor>(a + x) * 1000 + 1 / 2\<rfloor> / 1000) xs 0);
              observed = weighted_score_fl rnd fsum
                [[Fin 1, Fin 1, Fin 2], [Fin 0, Fin 0, Fin 0], [Fin 0, Fin 5, Fin 1]]
                (modified_confusion_entry_fl rnd [[1, 0, 1]] [[0, 0, 0]]) 3;
              perfect = weighted_score_fl rnd fsum
                [[Fin 1, Fin 1, Fin 2], [Fin 0, Fin 0, Fin 0], [Fin 0, Fin 5, Fin 1]]
                (modified_confusion_entry_fl rnd [[1, 0, 1]] [[1, 0, 1]]) 3;
              baseline = weighted_score_fl rnd fsum
                [[Fin 1, Fin 1, Fin 2], [Fin 0, Fin 0, Fin 0], [Fin 0, Fin 5, Fin 1]]
                (modified_confusion_entry_fl rnd [[1, 0, 1]] (default_only 1 3 1)) 3
          in if perfect = baseline then Inr (Fin 0)
             else if rnd (perfect - baseline) = 0 then Inl ZeroDivisionError
             else Inr (Fin (rnd (rnd (observed - baseline) / rnd (perfect - baseline)))))
        = (Inr (Fin (- 999)) :: error + flt)"
    by code_simp
  note t1 = challenge_metric_normalized_score [OF shape_witness_weights
      shape_witness_three_labels shape_witness_three_outputs p(1) b(1,2) c2,
      THEN conjunct2]
  note t2 = challenge_metric_normalized_score [OF shape_witness_weights3
      shape_witness_one_label shape_witness_one_output p(2) b(3,4) c3,
      THEN conjunct2]
  note t3 = challenge_metric_normalized_score [OF shape_witness_weights3
      shape_witness_one_label shape_witness_one_output p(2) b(3,4) c3,
      where rnd = "\<lambda>x. of_int \<lfloor>x * 1000 + 1 / 2\<rfloor> / 1000"
        and fsum = "\<lambda>xs. fold (\<lambda>x a. of_int \<lfloor>(a + x) * 1000 + 1 / 2\<rfloor> / 1000) xs 0",
      THEN conjunct1]
  have r1: "compute_challenge_metric (\<lambda>x. x) sum_list [[Fin 1, NaN], [Fin (1 / 2), Fin 1]]
        [[0, 1], [1, 0], [1, 0]] [[0, 1], [1, 1], [1, 0]] [''AF'', ''NSR''] ''NSR''
       = Inr (Fin (3 / 4))"
    using t1 unfolding v1 .
  have r2: "compute_challenge_metric (\<lambda>x. x) sum_list
        [[Fin 1, Fin 1, Fin 2], [Fin 0, Fin 0, Fin 0], [Fin 0, Fin 5, Fin 1]]
        [[1, 0, 1]] [[0, 0, 0]] [''AF'', ''NSR'', ''PVC''] ''NSR''
       = Inr (Fin 0)"
    using t2 unfolding v2 .
  have r3: "compute_challenge_metric (\<lambda>x. of_int \<lfloor>x * 1000 + 1 / 2\<rfloor> / 1000)
        (\<lambda>xs. fold (\<lambda>x a. of_int \<lfloor>(a + x) * 1000 + 1 / 2\<rfloor> / 1000) xs 0)
        [[Fin 1, Fin 1, Fin 2], [Fin 0, Fin 0, Fin 0], [Fin 0, Fin 5, Fin 1]]
        [[1, 0, 1]] [[0, 0, 0]] [''AF'', ''NSR'', ''PVC''] ''NSR''
       = Inr (Fin (- 999))"
    using t3 v3 by (simp only: Let_def)
  show ?thesis
    using shape_witness_weights shape_witness_three_labels shape_witness_three_outputs
      shape_witness_weights3 shape_witness_one_label shape_witness_one_output
      b c2(3) c3(3) n r1 r2 r3
    by (intro conjI)
qed


subsection \<open>The errors of the challenge metric\<close>

lemma np_multiply_fits:
  assumes "has_shape W wr wc" "0 < wr" "has_shape A c c"
    and "broadcast_dim wr c \<noteq> None" "broadcast_dim wc c \<noteq> None"
  shows "\<exists>P. np_multiply rnd W A = Inr P"
  using assms(4,5)
  by (auto simp: np_multiply_def np_shape_has_shape [OF assms(1,2)] np_shape_square [OF assms(3)])

lemma weighted_confusion_score_missing_row:
  assumes "has_shape labels r c" "0 < r" "length outputs < r"
  shows "weighted_confusion_score rnd fsum W labels outputs = Inl IndexError"
  by (simp add: weighted_confusion_score_def modified_confusion_matrix_fl_missing_row [OF assms])

lemma weighted_confusion_score_mismatch:
  assumes "has_shape labels r c" "0 < r" "r \<le> length outputs"
    and "has_shape W wr wc" "0 < wr"
    and "broadcast_dim wr c = None \<or> broadcast_dim wc c = None"
  shows "weighted_confusion_score rnd fsum W labels outputs = Inl ValueError_broadcast"
proof -
  from modified_confusion_matrix_fl_truthy [OF assms(1-3), of rnd]
  obtain M where M: "compute_modified_confusion_matrix_fl rnd labels outputs = Inr M"
    "has_shape M c c"
    by blast
  show ?thesis
    by (simp add: weighted_confusion_score_def M(1) np_multiply_mismatch [OF assms(4,5) M(2) assms(6)])
qed

lemma weighted_confusion_score_fits:
  assumes "has_shape labels r c" "0 < r" "r \<le> length outputs"
    and "has_shape W wr wc" "0 < wr"
    and "broadcast_dim wr c \<noteq> None" "broadcast_dim wc c \<noteq> None"
  shows "\<exists>s. weighted_confusion_score rnd fsum W labels outputs = Inr s"
proof -
  from modified_confusion_matrix_fl_truthy [OF assms(1-3), of rnd]
  obtain M where M: "compute_modified_confusion_matrix_fl rnd labels outputs = Inr M"
    "has_shape M c c"
    by blast
  from np_multiply_fits [OF assms(4,5) M(2) assms(6,7), of rnd]
  obtain P where "np_multiply rnd W M = Inr P" by blast
  then show ?thesis by (simp add: weighted_confusion_score_def M(1))
qed

lemma challenge_metric_class_absent:
  "sinus_rhythm \<notin> set classes
     \<Longrightarrow> compute_challenge_metric rnd fsum W labels outputs classes sinus_rhythm
         = Inl ValueError_sinus_rhythm"
  by (simp add: compute_challenge_metric_def split: prod.splits)

lemma challenge_metric_class_present:
  assumes "sinus_rhythm \<in> set classes"
  shows "compute_challenge_metric rnd fsum W labels outputs classes sinus_rhythm
       \<noteq> Inl ValueError_sinus_rhythm"
  using assms
  by (auto simp: compute_challenge_metric_def Let_def split: prod.splits sum.splits if_splits
      dest: weighted_confusion_score_error)

lemma challenge_metric_first_error:
  assumes "sinus_rhythm \<in> set classes"
    and "weighted_confusion_score rnd fsum W labels outputs = Inl e"
  shows "compute_challenge_metric rnd fsum W labels outputs classes sinus_rhythm = Inl e"
  using assms by (simp add: compute_challenge_metric_def split: prod.splits)

lemma challenge_metric_fits_error:
  assumes L: "has_shape labels r c" and r: "0 < r" and B: "r \<le> length outputs"
    and W: "has_shape W wr wc" "0 < wr"
    and f: "broadcast_dim wr c \<noteq> None" "broadcast_dim wc c \<noteq> None"
    and e: "compute_challenge_metric rnd fsum W labels outputs classes sinus_rhythm = Inl e"
  shows "e = ValueError_sinus_rhythm \<or> e = IndexError \<or> e = ZeroDivisionError"
proof -
  have lr: "r \<le> length labels" using L by (simp add: has_shape_def)
  from weighted_confusion_score_fits [OF L r B W f, of rnd fsum]
  obtain s1 where s1: "weighted_confusion_score rnd fsum W labels outputs = Inr s1" by blast
  from weighted_confusion_score_fits [OF L r lr W f, of rnd fsum]
  obtain s2 where s2: "weighted_confusion_score rnd fsum W labels labels = Inr s2" by blast
  have "\<exists>s. weighted_confusion_score rnd fsum W labels (map (\<lambda>row. row[d := 1]) (zeros2 r c))
           = Inr s" for d
    by (rule weighted_confusion_score_fits [OF L r _ W f]) (simp add: zeros2_def)
  then obtain s3 where s3: "weighted_confusion_score rnd fsum W labels
      (map (\<lambda>row. row[d := 1]) (zeros2 r c)) = Inr (s3 d)" for d
    by metis
  show ?thesis
    using e
    by (auto simp: compute_challenge_metric_def np_shape_has_shape [OF L r] Let_def s1 s2 s3
        split: if_splits)
qed

text \<open>
  Claim C6. For a two-dimensional array of weights, labels of shape \<open>(r, c)\<close> and predictions
  of shape \<open>(r', c)\<close>, whatever the rounding: \<open>compute_challenge_metric\<close> raises the
  \<^verbatim>\<open>ValueError\<close> of the missing class exactly when the sinus rhythm class is not in the list
  of classes. The check comes before the first confusion matrix and the first score: when
  the predictions have fewer rows than the labels the first confusion matrix raises
  \<^verbatim>\<open>IndexError\<close>, and when the weights cannot be broadcast against it the first score raises
  numpy's \<^verbatim>\<open>ValueError\<close>; the function raises these errors when the class is in the list, and
  the error of the missing class, as the first line of the equivalence says, when it is
  not. When the class is in the list, the predictions have a row for every row of the
  labels and the weights can be broadcast, the function raises no \<^verbatim>\<open>ValueError\<close> at all.
\<close>

theorem challenge_metric_raises_iff_class_absent:
  assumes "has_shape weights wr wc" "0 < wr" "has_shape labels r c" "0 < r"
    and "has_shape outputs r' c"
  shows "(compute_challenge_metric rnd fsum weights labels outputs classes sinus_rhythm
            = Inl ValueError_sinus_rhythm \<longleftrightarrow> sinus_rhythm \<notin> set classes)
       \<and> (r' < r \<longrightarrow>
            weighted_confusion_score rnd fsum weights labels outputs = Inl IndexError
            \<and> (sinus_rhythm \<in> set classes \<longrightarrow>
                 compute_challenge_metric rnd fsum weights labels outputs classes sinus_rhythm
                   = Inl IndexError))
       \<and> (r \<le> r' \<and> (broadcast_dim wr c = None \<or> broadcast_dim wc c = None) \<longrightarrow>
            weighted_confusion_score rnd fsum weights labels outputs = Inl ValueError_broadcast
            \<and> (sinus_rhythm \<in> set classes \<longrightarrow>
                 compute_challenge_metric rnd fsum weights labels outputs classes sinus_rhythm
                   = Inl ValueError_broadcast))
       \<and> (sinus_rhythm \<in> set classes \<and> r \<le> r'
            \<and> broadcast_dim wr c \<noteq> None \<and> broadcast_dim wc c \<noteq> None \<longrightarrow>
            (\<forall>e. compute_challenge_metric rnd fsum weights labels outputs classes sinus_rhythm
                   = Inl e \<longrightarrow> e = IndexError \<or> e = ZeroDivisionError))"
proof (intro conjI impI allI)
  show "compute_challenge_metric rnd fsum weights labels outputs classes sinus_rhythm
            = Inl ValueError_sinus_rhythm \<longleftrightarrow> sinus_rhythm \<notin> set classes"
    using challenge_metric_class_absent [of sinus_rhythm classes rnd fsum weights labels outputs]
      challenge_metric_class_present [of sinus_rhythm classes rnd fsum weights labels outputs]
    by blast
next
  assume "r' < r"
  then have "length outputs < r" using assms(5) by (simp add: has_shape_def)
  then show e: "weighted_confusion_score rnd fsum weights labels outputs = Inl IndexError"
    by (rule weighted_confusion_score_missing_row [OF assms(3,4)])
  assume "sinus_rhythm \<in> set classes"
  then show "compute_challenge_metric rnd fsum weights labels outputs classes sinus_rhythm
                   = Inl IndexError"
    using e by (rule challenge_metric_first_error)
next
  assume h: "r \<le> r' \<and> (broadcast_dim wr c = None \<or> broadcast_dim wc c = None)"
  then have "r \<le> length outputs" using assms(5) by (simp add: has_shape_def)
  then show e: "weighted_confusion_score rnd fsum weights labels outputs
      = Inl ValueError_broadcast"
    using h by (intro weighted_confusion_score_mismatch [OF assms(3,4) _ assms(1,2)]) simp_all
  assume "sinus_rhythm \<in> set classes"
  then show "compute_challenge_metric rnd fsum weights labels outputs classes sinus_rhythm
                   = Inl ValueError_broadcast"
    using e by (rule challenge_metric_first_error)
next
  fix e
  assume h: "sinus_rhythm \<in> set classes \<and> r \<le> r'
            \<and> broadcast_dim wr c \<noteq> None \<and> broadcast_dim wc c \<noteq> None"
    and e: "compute_challenge_metric rnd fsum weights labels outputs classes sinus_rhythm = Inl e"
  have len: "r \<le> length outputs" using h assms(5) by (simp add: has_shape_def)
  have "e \<noteq> ValueError_sinus_rhythm"
    using challenge_metric_class_present [of sinus_rhythm classes rnd fsum weights labels outputs]
      h e by auto
  moreover have "e = ValueError_sinus_rhythm \<or> e = IndexError \<or> e = ZeroDivisionError"
    using h by (intro challenge_metric_fits_error [OF assms(3,4) len assms(1,2) _ _ e]) simp_all
  ultimately show "e = IndexError \<or> e = ZeroDivisionError" by blast
qed


lemma shape_witness_identity2: "has_shape [[Fin 1, Fin 0], [Fin 0, Fin 1]] 2 2"
  by (simp add: has_shape_def)

lemma shape_witness_identity3:
  "has_shape [[Fin 1, Fin 0, Fin 0], [Fin 0, Fin 1, Fin 0], [Fin 0, Fin 0, Fin 1]] 3 3"
  by (simp add: has_shape_def)

lemma shape_witness_two_labels: "has_shape [[1, 0], [0, 1 :: int]] 2 2"
  by (simp add: has_shape_def)

lemma shape_witness_short_outputs: "has_shape [[1, 0 :: int]] 1 2"
  by (simp add: has_shape_def)

theorem challenge_metric_raises_iff_class_absent_witness:
  "has_shape [[Fin 1, Fin 0, Fin 0], [Fin 0, Fin 1, Fin 0], [Fin 0, Fin 0, Fin 1]] 3 3
   \<and> has_shape [[Fin 1, Fin 0], [Fin 0, Fin 1]] 2 2
   \<and> has_shape [[1, 0], [0, 1 :: int]] 2 2 \<and> has_shape [[1, 0 :: int]] 1 2
   \<and> ''NSR'' \<notin> set [''AF'', ''PVC''] \<and> ''NSR'' \<in> set [''AF'', ''NSR'']
   \<and> broadcast_dim 3 2 = None \<and> broadcast_dim 2 2 \<noteq> None
   \<and> weighted_confusion_score (\<lambda>x. x) sum_list
        [[Fin 1, Fin 0, Fin 0], [Fin 0, Fin 1, Fin 0], [Fin 0, Fin 0, Fin 1]]
        [[1, 0], [0, 1]] [[1, 0]] = Inl IndexError
   \<and> compute_challenge_metric (\<lambda>x. x) sum_list
        [[Fin 1, Fin 0, Fin 0], [Fin 0, Fin 1, Fin 0], [Fin 0, Fin 0, Fin 1]]
        [[1, 0], [0, 1]] [[1, 0]] [''AF'', ''PVC''] ''NSR'' = Inl ValueError_sinus_rhythm
   \<and> compute_challenge_metric (\<lambda>x. x) sum_list
        [[Fin 1, Fin 0, Fin 0], [Fin 0, Fin 1, Fin 0], [Fin 0, Fin 0, Fin 1]]
        [[1, 0], [0, 1]] [[1, 0]] [''AF'', ''NSR''] ''NSR'' = Inl IndexError
   \<and> weighted_confusion_score (\<lambda>x. x) sum_list
        [[Fin 1, Fin 0, Fin 0], [Fin 0, Fin 1, Fin 0], [Fin 0, Fin 0, Fin 1]]
        [[1, 0], [0, 1]] [[1, 0], [0, 1]] = Inl ValueError_broadcast
   \<and> compute_challenge_metric (\<lambda>x. x) sum_list
        [[Fin 1, Fin 0, Fin 0], [Fin 0, Fin 1, Fin 0], [Fin 0, Fin 0, Fin 1]]
        [[1, 0], [0, 1]] [[1, 0], [0, 1]] [''AF'', ''PVC''] ''NSR'' = Inl ValueError_sinus_rhythm
   \<and> compute_challenge_metric (\<lambda>x. x) sum_list
        [[Fin 1, Fin 0, Fin 0], [Fin 0, Fin 1, Fin 0], [Fin 0, Fin 0, Fin 1]]
        [[1, 0], [0, 1]] [[1, 0], [0, 1]] [''AF'', ''NSR''] ''NSR'' = Inl ValueError_broadcast
   \<and> compute_challenge_metric (\<lambda>x. x) sum_list [[Fin 1, Fin 0], [Fin 0, Fin 1]]
        [[1, 0], [0, 1]] [[1, 0], [0, 1]] [''AF'', ''NSR''] ''NSR'' \<noteq> Inl ValueError_sinus_rhythm
   \<and> compute_challenge_metric (\<lambda>x. x) sum_list [[Fin 1, Fin 0], [Fin 0, Fin 1]]
        [[1, 0], [0, 1]] [[1, 0], [0, 1]] [''AF'', ''NSR''] ''NSR'' \<noteq> Inl ValueError_broadcast
   \<and> compute_challenge_metric (\<lambda>x. x) sum_list [[Fin 1, Fin 0], [Fin 0, Fin 1]]
        [[1, 0], [0, 1]] [[1, 0], [0, 1]] [''AF'', ''NSR''] ''NSR'' = Inr (Fin 1)"
proof -
  have p: "(0::nat) < 3" "(0::nat) < 2" by simp_all
  have m: "''NSR'' \<notin> set [''AF'', ''PVC'']" "''NSR'' \<in> set [''AF'', ''NSR'']" by simp_all
  have bd: "broadcast_dim 3 2 = None" "broadcast_dim 2 2 \<noteq> None"
    by (simp_all add: broadcast_dim_def)
  note short = challenge_metric_raises_iff_class_absent [OF shape_witness_identity3 p(1)
      shape_witness_two_labels p(2) shape_witness_short_outputs,
      where rnd = "\<lambda>x. x" and fsum = sum_list and sinus_rhythm = "''NSR''"]
  note wide = challenge_metric_raises_iff_class_absent [OF shape_witness_identity3 p(1)
      shape_witness_two_labels p(2) shape_witness_two_labels,
      where rnd = "\<lambda>x. x" and fsum = sum_list and sinus_rhythm = "''NSR''"]
  note fits = challenge_metric_raises_iff_class_absent [OF shape_witness_identity2 p(2)
      shape_witness_two_labels p(2) shape_witness_two_labels,
      where rnd = "\<lambda>x. x" and fsum = sum_list and sinus_rhythm = "''NSR''"
        and classes = "[''AF'', ''NSR'']"]
  have s1: "weighted_confusion_score (\<lambda>x. x) sum_list
        [[Fin 1, Fin 0, Fin 0], [Fin 0, Fin 1, Fin 0], [Fin 0, Fin 0, Fin 1]]
        [[1, 0], [0, 1]] [[1, 0]] = Inl IndexError"
    using short [of "[''AF'', ''PVC'']"] by simp
  have s2: "compute_challenge_metric (\<lambda>x. x) sum_list
        [[Fin 1, Fin 0, Fin 0], [Fin 0, Fin 1, Fin 0], [Fin 0, Fin 0, Fin 1]]
        [[1, 0], [0, 1]] [[1, 0]] [''AF'', ''PVC''] ''NSR'' = Inl ValueError_sinus_rhythm"
    using short [of "[''AF'', ''PVC'']"] m(1) by blast
  have s3: "compute_challenge_metric (\<lambda>x. x) sum_list
        [[Fin 1, Fin 0, Fin 0], [Fin 0, Fin 1, Fin 0], [Fin 0, Fin 0, Fin 1]]
        [[1, 0], [0, 1]] [[1, 0]] [''AF'', ''NSR''] ''NSR'' = Inl IndexError"
    using short [of "[''AF'', ''NSR'']"] m(2) by simp
  have w1: "weighted_confusion_score (\<lambda>x. x) sum_list
        [[Fin 1, Fin 0, Fin 0], [Fin 0, Fin 1, Fin 0], [Fin 0, Fin 0, Fin 1]]
        [[1, 0], [0, 1]] [[1, 0], [0, 1]] = Inl ValueError_broadcast"
    using wide [of "[''AF'', ''PVC'']"] bd(1) by simp
  have w2: "compute_challenge_metric (\<lambda>x. x) sum_list
        [[Fin 1, Fin 0, Fin 0], [Fin 0, Fin 1, Fin 0], [Fin 0, Fin 0, Fin 1]]
        [[1, 0], [0, 1]] [[1, 0], [0, 1]] [''AF'', ''PVC''] ''NSR'' = Inl ValueError_sinus_rhythm"
    using wide [of "[''AF'', ''PVC'']"] m(1) by blast
  have w3: "compute_challenge_metric (\<lambda>x. x) sum_list
        [[Fin 1, Fin 0, Fin 0], [Fin 0, Fin 1, Fin 0], [Fin 0, Fin 0, Fin 1]]
        [[1, 0], [0, 1]] [[1, 0], [0, 1]] [''AF'', ''NSR''] ''NSR'' = Inl ValueError_broadcast"
    using wide [of "[''AF'', ''NSR'']"] m(2) bd(1) by simp
  have f1: "compute_challenge_metric (\<lambda>x. x) sum_list [[Fin 1, Fin 0], [Fin 0, Fin 1]]
        [[1, 0], [0, 1]] [[1, 0], [0, 1]] [''AF'', ''NSR''] ''NSR'' \<noteq> Inl ValueError_sinus_rhythm"
    using fits m(2) by blast
  have f2: "compute_challenge_metric (\<lambda>x. x) sum_list [[Fin 1, Fin 0], [Fin 0, Fin 1]]
        [[1, 0], [0, 1]] [[1, 0], [0, 1]] [''AF'', ''NSR''] ''NSR'' \<noteq> Inl ValueError_broadcast"
    using fits m(2) bd(2) by auto
  have f3: "compute_challenge_metric (\<lambda>x. x) sum_list [[Fin 1, Fin 0], [Fin 0, Fin 1]]
        [[1, 0], [0, 1]] [[1, 0], [0, 1]] [''AF'', ''NSR''] ''NSR'' = Inr (Fin 1)"
    by code_simp
  show ?thesis
    using shape_witness_identity3 shape_witness_identity2 shape_witness_two_labels
      shape_witness_short_outputs m bd s1 s2 s3 w1 w2 w3 f1 f2 f3
    by (intro conjI)
qed

subsection \<open>Entries outside \<open>{0, 1}\<close>\<close>

lemma confusion_matrices_mode:
  "compute_confusion_matrices labels outputs normalized
     = (let (num_recordings, num_classes) = np_shape labels
        in confusion_rows (\<lambda>i. record_weight normalized (labels ! i)) labels outputs num_classes
             [0..<num_recordings] (replicate num_classes [[0, 0], [0, 0]]))"
  by (cases normalized) (simp_all add: compute_confusion_matrices_def record_weight_def Let_def)

lemma confusion_matrices_cells:
  assumes sh: "has_shape labels r c" "has_shape outputs r c" "0 < r"
    and bin: "binary_entries labels" "binary_entries outputs"
  shows "\<exists>A. compute_confusion_matrices labels outputs normalized = Inr A \<and> length A = c
      \<and> (\<forall>k<c. A ! k = [[cell_total normalized labels outputs k 0 0,
                          cell_total normalized labels outputs k 1 0],
                         [cell_total normalized labels outputs k 0 1,
                          cell_total normalized labels outputs k 1 1]])"
proof -
  let ?w = "\<lambda>i. record_weight normalized (labels ! i)"
  have b: "\<forall>i\<in>set [0..<r]. \<forall>j<c. (labels ! i ! j = 0 \<or> labels ! i ! j = 1)
        \<and> (outputs ! i ! j = 0 \<or> outputs ! i ! j = 1)"
    using bin binary_entries_nth [OF sh(1)] binary_entries_nth [OF sh(2)] by simp
  from confusion_rows_binary [OF wf3_zero b, of ?w]
  obtain A where A: "confusion_rows ?w labels outputs c [0..<r] (replicate c [[0, 0], [0, 0]]) = Inr A"
    "wf3 A c"
    "\<forall>k<c. \<forall>a<2. \<forall>b<2. A ! k ! a ! b
        = replicate c [[0, 0], [0, 0]] ! k ! a ! b
          + sum_list (map (\<lambda>i. if outputs ! i ! k = int a \<and> labels ! i ! k = int b
                                then ?w i else 0) [0..<r])"
    by blast
  have res: "compute_confusion_matrices labels outputs normalized = Inr A"
    using A(1) by (simp add: confusion_matrices_mode np_shape_has_shape [OF sh(1,3)])
  have cell: "A ! k ! a ! b = cell_total normalized labels outputs k (int b) (int a)"
    if "k < c" "a < 2" "b < 2" for k a b
  proof -
    have z: "replicate c [[0, 0], [0, 0::rat]] ! k ! a ! b = 0"
      using that lt2_cases [of a] lt2_cases [of b] by auto
    have "A ! k ! a ! b = sum_list (map (\<lambda>i. if outputs ! i ! k = int a \<and> labels ! i ! k = int b
                                then ?w i else 0) [0..<r])"
      using A(3) that z by simp
    also have "(\<lambda>i. if outputs ! i ! k = int a \<and> labels ! i ! k = int b then ?w i else 0)
        = (\<lambda>i. if labels ! i ! k = int b \<and> outputs ! i ! k = int a then ?w i else 0)"
      by auto
    finally show ?thesis
      by (simp add: cell_total_def has_shape_length [OF sh(1)])
  qed
  have "A ! k = [[cell_total normalized labels outputs k 0 0,
                  cell_total normalized labels outputs k 1 0],
                 [cell_total normalized labels outputs k 0 1,
                  cell_total normalized labels outputs k 1 1]]"
    if k: "k < c" for k
  proof -
    have l: "length (A ! k) = 2" "length (A ! k ! 0) = 2" "length (A ! k ! 1) = 2"
      using A(2) k by (auto simp: wf3_def)
    have "A ! k = [A ! k ! 0, A ! k ! 1]" by (rule list2_eq [OF l(1)])
    moreover have "A ! k ! 0 = [A ! k ! 0 ! 0, A ! k ! 0 ! 1]" by (rule list2_eq [OF l(2)])
    moreover have "A ! k ! 1 = [A ! k ! 1 ! 0, A ! k ! 1 ! 1]" by (rule list2_eq [OF l(3)])
    ultimately have "A ! k = [[A ! k ! 0 ! 0, A ! k ! 0 ! 1], [A ! k ! 1 ! 0, A ! k ! 1 ! 1]]"
      by simp
    then show ?thesis
      using cell [OF k, of 0 0] cell [OF k, of 0 1] cell [OF k, of 1 0] cell [OF k, of 1 1]
      by simp
  qed
  with res A(2) show ?thesis by (auto simp: wf3_def)
qed

lemma sum_four_way:
  assumes "\<forall>i\<in>set xs. (f i = 0 \<or> f i = (1::int)) \<and> (g i = 0 \<or> g i = (1::int))"
  shows "sum_list (map (\<lambda>i. if f i = 0 \<and> g i = 0 then w i else 0) xs)
       + sum_list (map (\<lambda>i. if f i = 1 \<and> g i = 0 then w i else 0) xs)
       + sum_list (map (\<lambda>i. if f i = 0 \<and> g i = 1 then w i else 0) xs)
       + sum_list (map (\<lambda>i. if f i = 1 \<and> g i = 1 then w i else 0) xs)
       = sum_list (map w xs :: rat list)"
  using assms by (induction xs) auto

lemma cell_total_sum:
  assumes sh: "has_shape labels r c" "has_shape outputs r c"
    and bin: "binary_entries labels" "binary_entries outputs" and k: "k < c"
  shows "cell_total normalized labels outputs k 0 0 + cell_total normalized labels outputs k 1 0
       + cell_total normalized labels outputs k 0 1 + cell_total normalized labels outputs k 1 1
       = (\<Sum>i\<leftarrow>[0..<r]. record_weight normalized (labels ! i))"
proof -
  have "\<forall>i\<in>set [0..<r]. (labels ! i ! k = 0 \<or> labels ! i ! k = 1)
        \<and> (outputs ! i ! k = 0 \<or> outputs ! i ! k = 1)"
    using bin binary_entries_nth [OF sh(1)] binary_entries_nth [OF sh(2)] k by simp
  from sum_four_way [OF this, of "\<lambda>i. record_weight normalized (labels ! i)"] show ?thesis
    by (simp add: cell_total_def has_shape_length [OF sh(1)])
qed

lemma binarize_shape: "has_shape m r c \<Longrightarrow> has_shape (binarize m) r c"
  by (simp add: has_shape_nth binarize_def)

lemma binarize_binary: "binary_entries (binarize m)"
  by (auto simp: binary_entries_def binarize_def list_all_iff)

lemma binarize_nth:
  assumes "has_shape m r c" "i < r" "j < c"
  shows "binarize m ! i ! j = (if m ! i ! j = 0 then 0 else 1)"
  using assms by (simp add: has_shape_nth binarize_def)

lemma matrix_eqI:
  assumes "has_shape M r c" "has_shape N r c" "\<forall>j<r. \<forall>k<c. M ! j ! k = N ! j ! k"
  shows "M = N"
proof (rule nth_equalityI)
  show "length M = length N" using assms(1,2) by (simp add: has_shape_nth)
next
  fix j assume "j < length M"
  then have j: "j < r" using assms(1) by (simp add: has_shape_nth)
  show "M ! j = N ! j"
    using assms j by (intro nth_equalityI) (simp_all add: has_shape_nth)
qed

lemma truthy_fold_binarize:
  assumes sh: "has_shape labels r c" "has_shape outputs r c" and jk: "j < c" "k < c"
  shows "fold (\<lambda>i a. if labels ! i ! j \<noteq> 0 \<and> outputs ! i ! k \<noteq> 0
                  then rnd (a + rnd (1 / of_nat (max (length (filter
                         (\<lambda>c. labels ! i ! c \<noteq> 0 \<or> outputs ! i ! c \<noteq> 0) [0..<c])) 1)))
                  else a) [0..<r] 0
       = modified_confusion_entry_fl rnd (binarize labels) (binarize outputs) j k"
proof -
  have len: "length (binarize labels) = r"
    using binarize_shape [OF sh(1)] by (simp add: has_shape_nth)
  have "fold (\<lambda>i a. if labels ! i ! j \<noteq> 0 \<and> outputs ! i ! k \<noteq> 0
                  then rnd (a + rnd (1 / of_nat (max (length (filter
                         (\<lambda>c. labels ! i ! c \<noteq> 0 \<or> outputs ! i ! c \<noteq> 0) [0..<c])) 1)))
                  else a) [0..<r] 0
      = fold (\<lambda>i a. if binarize labels ! i ! j = 1 \<and> binarize outputs ! i ! k = 1
                  then rnd (a + rnd (1 / of_nat (max (union_size (binarize labels ! i)
                                                       (binarize outputs ! i)) 1)))
                  else a) [0..<r] 0"
  proof (rule fold_cong [OF refl refl], rule ext)
    fix i a assume "i \<in> set [0..<r]"
    then have i: "i < r" by simp
    have p: "(labels ! i ! j \<noteq> 0 \<and> outputs ! i ! k \<noteq> 0)
        \<longleftrightarrow> (binarize labels ! i ! j = 1 \<and> binarize outputs ! i ! k = 1)"
      by (simp add: binarize_nth [OF sh(1) i] binarize_nth [OF sh(2) i] jk)
    have f: "filter (\<lambda>c. labels ! i ! c \<noteq> 0 \<or> outputs ! i ! c \<noteq> 0) [0..<c]
           = filter (\<lambda>c. binarize labels ! i ! c = 1 \<or> binarize outputs ! i ! c = 1) [0..<c]"
      by (rule filter_cong) (simp_all add: binarize_nth [OF sh(1) i] binarize_nth [OF sh(2) i])
    have l: "length (binarize labels ! i) = c"
      by (rule has_shape_row [OF binarize_shape [OF sh(1)] i])
    have u: "length (filter (\<lambda>c. labels ! i ! c \<noteq> 0 \<or> outputs ! i ! c \<noteq> 0) [0..<c])
           = union_size (binarize labels ! i) (binarize outputs ! i)"
      by (simp only: f union_size_def l)
    show "(if labels ! i ! j \<noteq> 0 \<and> outputs ! i ! k \<noteq> 0
                  then rnd (a + rnd (1 / of_nat (max (length (filter
                         (\<lambda>c. labels ! i ! c \<noteq> 0 \<or> outputs ! i ! c \<noteq> 0) [0..<c])) 1)))
                  else a)
        = (if binarize labels ! i ! j = 1 \<and> binarize outputs ! i ! k = 1
                  then rnd (a + rnd (1 / of_nat (max (union_size (binarize labels ! i)
                                                       (binarize outputs ! i)) 1)))
                  else a)"
      by (simp only: p u)
  qed
  then show ?thesis by (simp only: modified_confusion_entry_fl_def len)
qed

lemma modified_confusion_matrix_fl_binarize:
  assumes sh: "has_shape labels r c" "has_shape outputs r c" "0 < r"
  shows "\<exists>M. compute_modified_confusion_matrix_fl rnd labels outputs = Inr M \<and> has_shape M c c
       \<and> compute_modified_confusion_matrix_fl rnd (binarize labels) (binarize outputs) = Inr M
       \<and> (\<forall>j<c. \<forall>k<c. M ! j ! k
            = modified_confusion_entry_fl rnd (binarize labels) (binarize outputs) j k)"
proof -
  have len: "r \<le> length outputs" using sh(2) by (simp add: has_shape_nth)
  from modified_confusion_matrix_fl_truthy [OF sh(1,3) len, of rnd]
  obtain M where M: "compute_modified_confusion_matrix_fl rnd labels outputs = Inr M"
    "has_shape M c c"
    "\<forall>j<c. \<forall>k<c. M ! j ! k
             = fold (\<lambda>i a. if labels ! i ! j \<noteq> 0 \<and> outputs ! i ! k \<noteq> 0
                  then rnd (a + rnd (1 / of_nat (max (length (filter
                         (\<lambda>c. labels ! i ! c \<noteq> 0 \<or> outputs ! i ! c \<noteq> 0) [0..<c])) 1)))
                  else a) [0..<r] 0"
    by blast
  from modified_confusion_matrix_fl_binary [OF binarize_shape [OF sh(1)]
      binarize_shape [OF sh(2)] sh(3) binarize_binary binarize_binary, of rnd]
  obtain N where N: "compute_modified_confusion_matrix_fl rnd (binarize labels) (binarize outputs)
      = Inr N" "has_shape N c c"
    "\<forall>j<c. \<forall>k<c. N ! j ! k
        = modified_confusion_entry_fl rnd (binarize labels) (binarize outputs) j k"
    by blast
  have e: "\<forall>j<c. \<forall>k<c. M ! j ! k
      = modified_confusion_entry_fl rnd (binarize labels) (binarize outputs) j k"
    using M(3) truthy_fold_binarize [OF sh(1,2), of _ _ rnd] by simp
  have "M = N" by (rule matrix_eqI [OF M(2) N(2)]) (simp add: e N(3))
  with M(1,2) N(1) e show ?thesis by blast
qed

text \<open>
  Claim C7, as the code has it. For labels and predictions of one shape, in either mode,
  \<open>compute_confusion_matrices\<close> raises \<^verbatim>\<open>ValueError\<close> exactly when some entry of the labels
  or of the predictions is outside \<open>{0, 1}\<close>. When all entries are in \<open>{0, 1}\<close>, in either
  mode, the matrix of class \<open>k\<close> is \<open>[[TN, FN], [FP, TP]]\<close> with each cell the sum of the
  increments of the recordings in that case, and the four cells add up to the sum of the
  increments of all recordings: every recording falls into exactly one of the four cases.
  The modified confusion matrix, whatever the entries and whatever the rounding, raises no
  error: it is the modified confusion matrix of the arrays with one in the place of every
  entry different from zero.
\<close>

theorem confusion_matrices_value_error_iff_not_binary:
  assumes "has_shape labels r c" "has_shape outputs r c" "0 < r"
  shows "(compute_confusion_matrices labels outputs normalized = Inl ValueError
            \<longleftrightarrow> \<not> (binary_entries labels \<and> binary_entries outputs))
       \<and> (binary_entries labels \<and> binary_entries outputs \<longrightarrow>
            (\<exists>A. compute_confusion_matrices labels outputs normalized = Inr A \<and> length A = c
               \<and> (\<forall>k<c. A ! k = [[cell_total normalized labels outputs k 0 0,
                                    cell_total normalized labels outputs k 1 0],
                                   [cell_total normalized labels outputs k 0 1,
                                    cell_total normalized labels outputs k 1 1]]
                     \<and> cell_total normalized labels outputs k 0 0
                       + cell_total normalized labels outputs k 1 0
                       + cell_total normalized labels outputs k 0 1
                       + cell_total normalized labels outputs k 1 1
                       = (\<Sum>i\<leftarrow>[0..<r]. record_weight normalized (labels ! i)))))
       \<and> (\<exists>M. compute_modified_confusion_matrix_fl rnd labels outputs = Inr M
               \<and> has_shape M c c
               \<and> compute_modified_confusion_matrix_fl rnd (binarize labels) (binarize outputs)
                   = Inr M
               \<and> (\<forall>j<c. \<forall>k<c. M ! j ! k
                     = modified_confusion_entry_fl rnd (binarize labels) (binarize outputs) j k))
       \<and> compute_modified_confusion_matrix labels outputs
           = compute_modified_confusion_matrix (binarize labels) (binarize outputs)"
proof (intro conjI impI)
  show "compute_confusion_matrices labels outputs normalized = Inl ValueError
            \<longleftrightarrow> \<not> (binary_entries labels \<and> binary_entries outputs)"
    using confusion_matrices_not_binary [OF assms, of normalized]
      confusion_matrices_binary_returns [OF assms, of normalized]
    by auto
next
  assume bin: "binary_entries labels \<and> binary_entries outputs"
  then have b: "binary_entries labels" "binary_entries outputs" by simp_all
  from confusion_matrices_cells [OF assms b, of normalized]
    cell_total_sum [OF assms(1,2) b, of _ normalized]
  show "\<exists>A. compute_confusion_matrices labels outputs normalized = Inr A \<and> length A = c
               \<and> (\<forall>k<c. A ! k = [[cell_total normalized labels outputs k 0 0,
                                    cell_total normalized labels outputs k 1 0],
                                   [cell_total normalized labels outputs k 0 1,
                                    cell_total normalized labels outputs k 1 1]]
                     \<and> cell_total normalized labels outputs k 0 0
                       + cell_total normalized labels outputs k 1 0
                       + cell_total normalized labels outputs k 0 1
                       + cell_total normalized labels outputs k 1 1
                       = (\<Sum>i\<leftarrow>[0..<r]. record_weight normalized (labels ! i)))"
    by auto
next
  show "\<exists>M. compute_modified_confusion_matrix_fl rnd labels outputs = Inr M
               \<and> has_shape M c c
               \<and> compute_modified_confusion_matrix_fl rnd (binarize labels) (binarize outputs)
                   = Inr M
               \<and> (\<forall>j<c. \<forall>k<c. M ! j ! k
                     = modified_confusion_entry_fl rnd (binarize labels) (binarize outputs) j k)"
    by (rule modified_confusion_matrix_fl_binarize [OF assms])
next
  have l: "length labels \<le> length outputs" "length (binarize labels) \<le> length (binarize outputs)"
    using assms(1,2) by (simp_all add: has_shape_nth binarize_def)
  from modified_confusion_matrix_fl_binarize [OF assms, of "\<lambda>x. x"]
  show "compute_modified_confusion_matrix labels outputs
           = compute_modified_confusion_matrix (binarize labels) (binarize outputs)"
    by (auto simp: modified_confusion_matrix_fl_exact [OF l(1)]
        modified_confusion_matrix_fl_exact [OF l(2)])
qed


lemma shape_witness_labels: "has_shape [[1, 0], [0, 1 :: int]] 2 2" by (simp add: has_shape_def)
lemma shape_witness_outputs: "has_shape [[1, 0], [1, 0 :: int]] 2 2" by (simp add: has_shape_def)
lemma shape_witness_bad_outputs: "has_shape [[1, 0], [2, 0 :: int]] 2 2" by (simp add: has_shape_def)
lemma shape_witness_both_labels: "has_shape [[1, 1 :: int]] 1 2" by (simp add: has_shape_def)
lemma shape_witness_first_output: "has_shape [[1, 0 :: int]] 1 2" by (simp add: has_shape_def)

theorem confusion_matrices_value_error_iff_not_binary_witness:
  "has_shape [[1, 0], [0, 1 :: int]] 2 2 \<and> has_shape [[1, 0], [1, 0 :: int]] 2 2
   \<and> has_shape [[1, 0], [2, 0 :: int]] 2 2
   \<and> has_shape [[1, 1 :: int]] 1 2 \<and> has_shape [[1, 0 :: int]] 1 2
   \<and> binary_entries [[1, 0], [0, 1]] \<and> binary_entries [[1, 0], [1, 0]]
   \<and> \<not> binary_entries [[1, 0], [2, 0]]
   \<and> binary_entries [[1, 1]] \<and> binary_entries [[1, 0]]
   \<and> compute_confusion_matrices [[1, 0], [0, 1]] [[1, 0], [1, 0]] True \<noteq> Inl ValueError
   \<and> compute_confusion_matrices [[1, 0], [0, 1]] [[1, 0], [2, 0]] True = Inl ValueError
   \<and> compute_confusion_matrices [[1, 0], [0, 1]] [[1, 0], [2, 0]] False = Inl ValueError
   \<and> cell_total True [[1, 1]] [[1, 0]] 0 0 0 + cell_total True [[1, 1]] [[1, 0]] 0 1 0
       + cell_total True [[1, 1]] [[1, 0]] 0 0 1 + cell_total True [[1, 1]] [[1, 0]] 0 1 1
       = 1 / 2
   \<and> cell_total False [[1, 1]] [[1, 0]] 0 0 0 + cell_total False [[1, 1]] [[1, 0]] 0 1 0
       + cell_total False [[1, 1]] [[1, 0]] 0 0 1 + cell_total False [[1, 1]] [[1, 0]] 0 1 1
       = 1
   \<and> compute_confusion_matrices [[1, 1]] [[1, 0]] True
       = Inr [[[0, 0], [0, 1 / 2]], [[0, 1 / 2], [0, 0]]]
   \<and> compute_modified_confusion_matrix_fl (\<lambda>x. x) [[1, 0], [0, 1]] [[1, 0], [2, 0]]
       = compute_modified_confusion_matrix_fl (\<lambda>x. x) [[1, 0], [0, 1]] [[1, 0], [1, 0]]
   \<and> compute_modified_confusion_matrix_fl (\<lambda>x. x) [[1, 0], [0, 1]] [[1, 0], [2, 0]]
       \<noteq> Inl IndexError
   \<and> compute_modified_confusion_matrix [[1, 0], [0, 1]] [[1, 0], [2, 0]]
       = compute_modified_confusion_matrix [[1, 0], [0, 1]] [[1, 0], [1, 0]]"
proof -
  have p: "(0::nat) < 2" "(0::nat) < 1" by simp_all
  have b: "binary_entries [[1, 0], [0, 1]]" "binary_entries [[1, 0], [1, 0]]"
    "\<not> binary_entries [[1, 0], [2, 0]]" "binary_entries [[1, 1]]" "binary_entries [[1, 0]]"
    by (simp_all add: binary_entries_def)
  have bz: "binarize [[1, 0], [0, 1]] = [[1, 0], [0, 1]]"
    "binarize [[1, 0], [2, 0]] = [[1, 0], [1, 0]]"
    by (simp_all add: binarize_def)
  note good = confusion_matrices_value_error_iff_not_binary
      [OF shape_witness_labels shape_witness_outputs p(1), of True "\<lambda>x. x"]
  note bad = confusion_matrices_value_error_iff_not_binary
      [OF shape_witness_labels shape_witness_bad_outputs p(1), where rnd = "\<lambda>x. x"]
  note one = confusion_matrices_value_error_iff_not_binary
      [OF shape_witness_both_labels shape_witness_first_output p(2), where rnd = "\<lambda>x. x"]
  have g1: "compute_confusion_matrices [[1, 0], [0, 1]] [[1, 0], [1, 0]] True \<noteq> Inl ValueError"
    using good b(1,2) by blast
  have b1: "compute_confusion_matrices [[1, 0], [0, 1]] [[1, 0], [2, 0]] True = Inl ValueError"
    using bad [of True] b(3) by blast
  have b2: "compute_confusion_matrices [[1, 0], [0, 1]] [[1, 0], [2, 0]] False = Inl ValueError"
    using bad [of False] b(3) by blast
  have s: "cell_total n [[1, 1]] [[1, 0]] 0 0 0 + cell_total n [[1, 1]] [[1, 0]] 0 1 0
       + cell_total n [[1, 1]] [[1, 0]] 0 0 1 + cell_total n [[1, 1]] [[1, 0]] 0 1 1
       = (\<Sum>i\<leftarrow>[0..<1]. record_weight n ([[1, 1]] ! i))" for n
    using one [of n] b(4,5) p(1) by blast
  have s1: "cell_total True [[1, 1]] [[1, 0]] 0 0 0 + cell_total True [[1, 1]] [[1, 0]] 0 1 0
       + cell_total True [[1, 1]] [[1, 0]] 0 0 1 + cell_total True [[1, 1]] [[1, 0]] 0 1 1
       = 1 / 2"
    unfolding s by (simp add: record_weight_def)
  have s2: "cell_total False [[1, 1]] [[1, 0]] 0 0 0 + cell_total False [[1, 1]] [[1, 0]] 0 1 0
       + cell_total False [[1, 1]] [[1, 0]] 0 0 1 + cell_total False [[1, 1]] [[1, 0]] 0 1 1
       = 1"
    unfolding s by (simp add: record_weight_def)
  have v: "compute_confusion_matrices [[1, 1]] [[1, 0]] True
       = Inr [[[0, 0], [0, 1 / 2]], [[0, 1 / 2], [0, 0]]]"
    by code_simp
  have m1: "compute_modified_confusion_matrix_fl (\<lambda>x. x) [[1, 0], [0, 1]] [[1, 0], [2, 0]]
       = compute_modified_confusion_matrix_fl (\<lambda>x. x) [[1, 0], [0, 1]] [[1, 0], [1, 0]]"
    using bad [of True] unfolding bz by auto
  have m2: "compute_modified_confusion_matrix_fl (\<lambda>x. x) [[1, 0], [0, 1]] [[1, 0], [2, 0]]
       \<noteq> Inl IndexError"
    using bad [of True] by auto
  have m3: "compute_modified_confusion_matrix [[1, 0], [0, 1]] [[1, 0], [2, 0]]
       = compute_modified_confusion_matrix [[1, 0], [0, 1]] [[1, 0], [1, 0]]"
    using bad [of True] unfolding bz by blast
  show ?thesis
    using shape_witness_labels shape_witness_outputs shape_witness_bad_outputs
      shape_witness_both_labels shape_witness_first_output b g1 b1 b2 s1 s2 v m1 m2 m3
    by (intro conjI)
qed

text \<open>
  \<open>compute_modified_confusion_matrix\<close> tests its entries for being different from zero and
  has no error branch for them: with a label \<open>2\<close> and with a prediction \<open>3\<close> it returns a
  matrix, and \<open>compute_challenge_metric\<close> returns a score.
\<close>

theorem modified_confusion_accepts_non_binary_counterexample:
  "\<not> binary_entries [[2, 0], [0, 1]]
   \<and> compute_modified_confusion_matrix [[2, 0], [0, 1]] [[1, 0], [1, 0]] = [[1, 0], [1 / 2, 0]]
   \<and> compute_modified_confusion_matrix_fl (\<lambda>x. x) [[2, 0], [0, 1]] [[1, 0], [1, 0]]
       = Inr [[1, 0], [1 / 2, 0]]
   \<and> compute_challenge_metric (\<lambda>x. x) sum_list [[Fin 1, Fin 0], [Fin 0, Fin 1]]
        [[2, 0], [0, 1]] [[1, 0], [0, 3]] [''NSR'', ''AF''] ''NSR'' = Inr (Fin 1)"
  by (simp add: binary_entries_def) code_simp

end
